theory Spec2Isabelle
  imports
    Complex_Main
    "HOL-Library.AList"
    "HOL-Library.Sublist"
    "HOL-Library.Char_ord"
    "HOL-Library.List_Lexorder"
begin

section \<open>Python values used by \<^verbatim>\<open>scripts/spreadsheet_to_projects.py\<close>\<close>

text \<open>
  The script reads an Excel workbook through \<^verbatim>\<open>xlrd\<close> and writes a JSON file.
  A Python \<^verbatim>\<open>str\<close> is modelled as a \<^typ>\<open>string\<close> whose characters
  are the code points below 256. The value of a cell is a \<^verbatim>\<open>str\<close> (text cells;
  an empty cell is the empty string) or a \<^verbatim>\<open>float\<close> (numeric cells), modelled
  as a rational number. Python is dynamically typed, so every operation that the
  script applies to a cell value has a branch for both kinds of value, and the
  exceptions it raises are values of \<open>py_error\<close>.
\<close>

datatype py_error = IndexError | ValueError | TypeError | AttributeError | KeyError

datatype cell = Text string | Number rat

subsection \<open>String methods\<close>

text \<open>
  \<^verbatim>\<open>s.replace(old, new)\<close> replaces the non-overlapping occurrences of \<open>old\<close>,
  leftmost first; \<^verbatim>\<open>s.replace(old, new, count)\<close> only the first \<open>count\<close> of
  them. The script calls both with a literal, non-empty \<open>old\<close>; for an empty
  \<open>old\<close> the functions below return \<open>s\<close>.
\<close>

fun py_replace :: "string \<Rightarrow> string \<Rightarrow> string \<Rightarrow> string" where
  "py_replace old new [] = []"
| "py_replace old new (c # cs) =
     (if old \<noteq> [] \<and> prefix old (c # cs)
      then new @ py_replace old new (drop (length old - 1) cs)
      else c # py_replace old new cs)"


text \<open>
  \<^verbatim>\<open>s.rfind(sub)\<close> is the highest index at which \<open>sub\<close> occurs in \<open>s\<close>,
  and \<open>-1\<close> when it does not occur.
\<close>

definition py_rfind :: "string \<Rightarrow> string \<Rightarrow> int" where
  "py_rfind s sub =
     (case filter (\<lambda>i. prefix sub (drop i s)) (rev [0..<Suc (length s)]) of
        [] \<Rightarrow> - 1
      | i # _ \<Rightarrow> int i)"

text \<open>
  \<^verbatim>\<open>s.lower()\<close>. Below code point 256 the letters with a lowercase partner are
  \<open>A\<close> to \<open>Z\<close> and the capital letters of Latin-1 (\<open>0xC0\<close> to \<open>0xDE\<close> without
  the multiplication sign \<open>0xD7\<close>); the partner is 32 code points higher.
\<close>

definition lower_char :: "char \<Rightarrow> char" where
  "lower_char c =
     (let n = (of_char c :: nat)
      in if (65 \<le> n \<and> n \<le> 90) \<or> (192 \<le> n \<and> n \<le> 222 \<and> n \<noteq> 215)
         then char_of (n + 32) else c)"

definition py_lower :: "string \<Rightarrow> string" where
  "py_lower s = map lower_char s"

subsection \<open>\<^verbatim>\<open>int(x)\<close> and \<^verbatim>\<open>str(n)\<close>\<close>

text \<open>
  \<^verbatim>\<open>int(s)\<close> for a string: surrounding whitespace is dropped, then an optional
  sign and a non-empty run of decimal digits, where single underscores may stand
  between digits. Anything else raises \<^verbatim>\<open>ValueError\<close>. The whitespace of
  \<^verbatim>\<open>int\<close> is tab, line feed, vertical tab, form feed, carriage return and
  space, and above the ASCII range the characters that \<^verbatim>\<open>str.isspace\<close> accepts
  (\<open>0x85\<close> and \<open>0xA0\<close> below 256); the separators \<open>0x1C\<close> to \<open>0x1F\<close> are
  not among them. \<^verbatim>\<open>int(x)\<close> for a float truncates towards zero.
\<close>

definition is_space :: "char \<Rightarrow> bool" where
  "is_space c = ((of_char c :: nat) \<in> set [9, 10, 11, 12, 13, 32, 133, 160])"

definition is_digit :: "char \<Rightarrow> bool" where
  "is_digit c = (48 \<le> (of_char c :: nat) \<and> (of_char c :: nat) \<le> 57)"

definition digit_val :: "char \<Rightarrow> nat" where
  "digit_val c = of_char c - 48"

definition py_strip :: "string \<Rightarrow> string" where
  "py_strip s = rev (dropWhile is_space (rev (dropWhile is_space s)))"

fun parse_digits :: "nat \<Rightarrow> string \<Rightarrow> nat option" where
  "parse_digits acc [] = Some acc"
| "parse_digits acc (c # cs) =
     (if is_digit c then parse_digits (10 * acc + digit_val c) cs
      else if c = CHR ''_'' then
        (case cs of
           [] \<Rightarrow> None
         | d # ds \<Rightarrow> if is_digit d then parse_digits (10 * acc + digit_val d) ds else None)
      else None)"

definition parse_nat :: "string \<Rightarrow> nat option" where
  "parse_nat s =
     (case s of
        [] \<Rightarrow> None
      | c # cs \<Rightarrow> if is_digit c then parse_digits (digit_val c) cs else None)"

definition int_of_str :: "string \<Rightarrow> int option" where
  "int_of_str s =
     (case py_strip s of
        [] \<Rightarrow> None
      | c # cs \<Rightarrow>
          if c = CHR ''+'' then map_option int (parse_nat cs)
          else if c = CHR ''-'' then map_option (\<lambda>n. - int n) (parse_nat cs)
          else map_option int (parse_nat (c # cs)))"

definition truncate :: "rat \<Rightarrow> int" where
  "truncate q = (if 0 \<le> q then \<lfloor>q\<rfloor> else \<lceil>q\<rceil>)"

fun py_int :: "cell \<Rightarrow> py_error + int" where
  "py_int (Text s) = (case int_of_str s of None \<Rightarrow> Inl ValueError | Some n \<Rightarrow> Inr n)"
| "py_int (Number q) = Inr (truncate q)"

fun str_of_nat :: "nat \<Rightarrow> string" where
  "str_of_nat n =
     (if n < 10 then [char_of (48 + n)]
      else str_of_nat (n div 10) @ [char_of (48 + n mod 10)])"

definition str_of_int :: "int \<Rightarrow> string" where
  "str_of_int i = (if i < 0 then CHR ''-'' # str_of_nat (nat (- i)) else str_of_nat (nat i))"

declare str_of_nat.simps [simp del]

text \<open>
  \<^verbatim>\<open>str(x)\<close>, which is also what \<^verbatim>\<open>"%s" % x\<close> inserts. The decimal form of a
  float (\<^verbatim>\<open>float.__repr__\<close>) is not computed here: it is the parameter \<open>fr\<close>
  of every function that may print a float.
\<close>

fun py_str :: "(rat \<Rightarrow> string) \<Rightarrow> cell \<Rightarrow> string" where
  "py_str fr (Text s) = s"
| "py_str fr (Number q) = fr q"

subsection \<open>\<^verbatim>\<open>sorted\<close>\<close>

text \<open>
  Strings are compared code point by code point, floats by value; comparing a
  string with a float raises \<^verbatim>\<open>TypeError\<close>. \<open>py_sorted_by key xs\<close> sorts
  \<open>xs\<close> by the cells \<open>key x\<close>; the sort is stable.
\<close>

fun is_Text :: "cell \<Rightarrow> bool" where
  "is_Text (Text s) = True"
| "is_Text (Number q) = False"

fun text_of :: "cell \<Rightarrow> string" where
  "text_of (Text s) = s"
| "text_of (Number q) = []"

fun number_of :: "cell \<Rightarrow> rat" where
  "number_of (Number q) = q"
| "number_of (Text s) = 0"

definition py_sorted_by :: "('a \<Rightarrow> cell) \<Rightarrow> 'a list \<Rightarrow> py_error + 'a list" where
  "py_sorted_by key xs =
     (if list_all (\<lambda>x. is_Text (key x)) xs then Inr (sort_key (\<lambda>x. text_of (key x)) xs)
      else if list_all (\<lambda>x. \<not> is_Text (key x)) xs then Inr (sort_key (\<lambda>x. number_of (key x)) xs)
      else Inl TypeError)"

definition py_sorted :: "cell list \<Rightarrow> py_error + cell list" where
  "py_sorted xs = py_sorted_by (\<lambda>x. x) xs"

section \<open>Sheets\<close>

text \<open>
  A sheet of the workbook: its name and its grid of cell values, row by row.
  \<^verbatim>\<open>sheet.cell(row, col).value\<close> raises \<^verbatim>\<open>IndexError\<close> outside the grid.
\<close>

record sheet =
  name :: string
  grid :: "cell list list"

definition nrows :: "sheet \<Rightarrow> nat" where
  "nrows sh = length (grid sh)"

definition cell_value :: "sheet \<Rightarrow> nat \<Rightarrow> nat \<Rightarrow> py_error + cell" where
  "cell_value sh row col =
     (if row < length (grid sh) \<and> col < length (grid sh ! row)
      then Inr (grid sh ! row ! col) else Inl IndexError)"

subsection \<open>The two free-standing normalisers\<close>


text \<open>
  \<^verbatim>\<open>normalized_bzrepo(url, product, component)\<close>. The sum is evaluated from the
  left: \<^verbatim>\<open>url + '...'\<close> raises \<^verbatim>\<open>TypeError\<close> for a float, then
  \<^verbatim>\<open>product.replace\<close> and \<^verbatim>\<open>component.replace\<close> raise
  \<^verbatim>\<open>AttributeError\<close> for a float.
\<close>

fun normalized_bzrepo :: "cell \<Rightarrow> cell \<Rightarrow> cell \<Rightarrow> py_error + cell" where
  "normalized_bzrepo (Number q) product component = Inl TypeError"
| "normalized_bzrepo (Text url) (Number q) component = Inl AttributeError"
| "normalized_bzrepo (Text url) (Text product) (Number q) = Inl AttributeError"
| "normalized_bzrepo (Text url) (Text product) (Text component) =
     Inr (Text (url @ ''/bugs/buglist.cgi?product='' @ py_replace '' '' ''+'' product
                @ ''&component='' @ py_replace '' '' ''+'' component))"

subsection \<open>The classes of sheets\<close>

text \<open>
  \<^verbatim>\<open>Sheet\<close> and its subclasses differ in \<^verbatim>\<open>_init_columns\<close>,
  \<^verbatim>\<open>_get_repo\<close> and \<^verbatim>\<open>_normalize_repo\<close>; a subclass that does not
  override a method has the one of \<^verbatim>\<open>Sheet\<close>.
\<close>

datatype sheet_class =
  GitHubSheet | BugzillaSheet | EmailSheet | DiscourseSheet | StackOverflow | Meetup | IRC

fun repo_columns :: "sheet_class \<Rightarrow> nat list" where
  "repo_columns BugzillaSheet = [0, 1, 2]"
| "repo_columns DiscourseSheet = [1]"
| "repo_columns _ = [0]"

fun project_column :: "sheet_class \<Rightarrow> nat" where
  "project_column BugzillaSheet = 3"
| "project_column DiscourseSheet = 2"
| "project_column _ = 1"

definition Sheet_get_repo :: "sheet_class \<Rightarrow> sheet \<Rightarrow> nat \<Rightarrow> py_error + cell" where
  "Sheet_get_repo k sh row = cell_value sh row (repo_columns k ! 0)"

definition BugzillaSheet_get_repo :: "sheet \<Rightarrow> nat \<Rightarrow> py_error + cell" where
  "BugzillaSheet_get_repo sh row =
     (case cell_value sh row (repo_columns BugzillaSheet ! 0) of
        Inl e \<Rightarrow> Inl e
      | Inr url \<Rightarrow>
     (case cell_value sh row (repo_columns BugzillaSheet ! 1) of
        Inl e \<Rightarrow> Inl e
      | Inr product \<Rightarrow>
     (case cell_value sh row (repo_columns BugzillaSheet ! 2) of
        Inl e \<Rightarrow> Inl e
      | Inr component \<Rightarrow> normalized_bzrepo url product component)))"

fun get_repo :: "sheet_class \<Rightarrow> sheet \<Rightarrow> nat \<Rightarrow> py_error + cell" where
  "get_repo BugzillaSheet sh row = BugzillaSheet_get_repo sh row"
| "get_repo k sh row = Sheet_get_repo k sh row"

text \<open>
  \<^verbatim>\<open>EmailSheet._normalize_repo\<close>: the test is
  \<^verbatim>\<open>repo.rfind('news.mozilla.org-') == 0\<close>, and \<^verbatim>\<open>replace\<close> has no count.
\<close>

fun EmailSheet_normalize_repo :: "cell \<Rightarrow> py_error + cell" where
  "EmailSheet_normalize_repo (Text repo) =
     Inr (Text (if py_rfind repo ''news.mozilla.org-'' = 0
                then py_replace ''news.mozilla.org-'' ''news.mozilla.org '' repo
                else repo))"
| "EmailSheet_normalize_repo (Number q) = Inl AttributeError"

text \<open>\<^verbatim>\<open>DiscourseSheet._normalize_repo\<close>: \<^verbatim>\<open>str(int(repo))\<close>.\<close>

definition DiscourseSheet_normalize_repo :: "cell \<Rightarrow> py_error + cell" where
  "DiscourseSheet_normalize_repo repo =
     (case py_int repo of Inl e \<Rightarrow> Inl e | Inr n \<Rightarrow> Inr (Text (str_of_int n)))"

text \<open>\<^verbatim>\<open>StackOverflow._normalize_repo\<close>: \<^verbatim>\<open>str(self.url + repo)\<close>.\<close>

definition StackOverflow_url :: string where
  "StackOverflow_url = ''http://stackoverflow.com/questions/tagged/''"

fun StackOverflow_normalize_repo :: "cell \<Rightarrow> py_error + cell" where
  "StackOverflow_normalize_repo (Text repo) = Inr (Text (StackOverflow_url @ repo))"
| "StackOverflow_normalize_repo (Number q) = Inl TypeError"

text \<open>\<^verbatim>\<open>IRC._normalize_repo\<close>: a format string with two \<^verbatim>\<open>%s\<close>.\<close>

definition IRC_normalize_repo :: "(rat \<Rightarrow> string) \<Rightarrow> cell \<Rightarrow> py_error + cell" where
  "IRC_normalize_repo fr repo =
     Inr (Text (''irc://irc.mozilla.org/'' @ py_str fr repo
                @ '' /home/bitergia/irc/percevalbot/logs/ChannelLogger/mozilla/#''
                @ py_str fr repo))"

fun normalize_repo :: "(rat \<Rightarrow> string) \<Rightarrow> sheet_class \<Rightarrow> cell \<Rightarrow> py_error + cell" where
  "normalize_repo fr EmailSheet repo = EmailSheet_normalize_repo repo"
| "normalize_repo fr DiscourseSheet repo = DiscourseSheet_normalize_repo repo"
| "normalize_repo fr StackOverflow repo = StackOverflow_normalize_repo repo"
| "normalize_repo fr IRC repo = IRC_normalize_repo fr repo"
| "normalize_repo fr k repo = Inr repo"

subsection \<open>\<^verbatim>\<open>Sheet.get_repos\<close>\<close>

text \<open>
  The body of the loop for one row: the repo, its normal form, then the project,
  with \<^verbatim>\<open>'Unknown'\<close> for an empty project. The loop runs over
  \<^verbatim>\<open>range(1, self.sheet.nrows)\<close> and stores each pair in the dictionary
  \<^verbatim>\<open>self.projects\<close>, which is empty when the sheet object is made. A
  dictionary is an association list in insertion order; \<open>AList.update\<close> is
  \<^verbatim>\<open>d[k] = v\<close>. The counters \<^verbatim>\<open>self.repos\<close> and the log lines feed only
  what is printed and are left out.
\<close>

definition row_entry ::
  "(rat \<Rightarrow> string) \<Rightarrow> sheet_class \<Rightarrow> sheet \<Rightarrow> nat \<Rightarrow> py_error + (cell \<times> cell)" where
  "row_entry fr k sh row =
     (case get_repo k sh row of
        Inl e \<Rightarrow> Inl e
      | Inr repo \<Rightarrow>
     (case normalize_repo fr k repo of
        Inl e \<Rightarrow> Inl e
      | Inr repo' \<Rightarrow>
     (case cell_value sh row (project_column k) of
        Inl e \<Rightarrow> Inl e
      | Inr project \<Rightarrow>
          Inr (repo', if project = Text [] then Text ''Unknown'' else project))))"

fun get_repos_rows ::
  "(rat \<Rightarrow> string) \<Rightarrow> sheet_class \<Rightarrow> sheet \<Rightarrow> nat list \<Rightarrow> (cell \<times> cell) list
     \<Rightarrow> py_error + (cell \<times> cell) list" where
  "get_repos_rows fr k sh [] projects = Inr projects"
| "get_repos_rows fr k sh (row # rest) projects =
     (case row_entry fr k sh row of
        Inl e \<Rightarrow> Inl e
      | Inr (repo, project) \<Rightarrow>
          get_repos_rows fr k sh rest (AList.update repo project projects))"

definition get_repos ::
  "(rat \<Rightarrow> string) \<Rightarrow> sheet_class \<Rightarrow> sheet \<Rightarrow> py_error + (cell \<times> cell) list" where
  "get_repos fr k sh = get_repos_rows fr k sh [1..<nrows sh] []"

section \<open>\<^verbatim>\<open>main\<close>\<close>

subsection \<open>Reading the sheets\<close>

text \<open>
  \<^verbatim>\<open>spreadsheet\<close> maps a data source to the dictionary \<^verbatim>\<open>get_repos\<close> returned
  for its sheet. For the sheet \<^verbatim>\<open>Github\<close> the script also makes the data
  source \<^verbatim>\<open>git\<close>: \<^verbatim>\<open>spreadsheet['git'][repo+'.git'] = project\<close> for every item
  of \<^verbatim>\<open>spreadsheet['github']\<close>; \<^verbatim>\<open>repo+'.git'\<close> raises \<^verbatim>\<open>TypeError\<close> for
  a float. A sheet with any other name is skipped.
\<close>

type_synonym sheet_result = "(cell \<times> cell) list"

type_synonym spreadsheet = "(string \<times> sheet_result) list"

fun git_repos :: "sheet_result \<Rightarrow> sheet_result \<Rightarrow> py_error + sheet_result" where
  "git_repos [] git = Inr git"
| "git_repos ((Text repo, project) # rest) git =
     git_repos rest (AList.update (Text (repo @ ''.git'')) project git)"
| "git_repos ((Number q, project) # rest) git = Inl TypeError"

definition store ::
  "string \<Rightarrow> py_error + sheet_result \<Rightarrow> spreadsheet \<Rightarrow> py_error + spreadsheet" where
  "store datasource r spreadsheet =
     (case r of Inl e \<Rightarrow> Inl e | Inr res \<Rightarrow> Inr (AList.update datasource res spreadsheet))"

definition read_sheet ::
  "(rat \<Rightarrow> string) \<Rightarrow> sheet \<Rightarrow> spreadsheet \<Rightarrow> py_error + spreadsheet" where
  "read_sheet fr sh spreadsheet =
     (if name sh = ''Github'' then
        (case get_repos fr GitHubSheet sh of
           Inl e \<Rightarrow> Inl e
         | Inr github \<Rightarrow>
             (case git_repos github [] of
                Inl e \<Rightarrow> Inl e
              | Inr git \<Rightarrow>
                  Inr (AList.update ''git'' git (AList.update ''github'' github spreadsheet))))
      else if name sh = ''Bugzilla'' then
        store ''bugzilla'' (get_repos fr BugzillaSheet sh) spreadsheet
      else if name sh = ''Mailing lists'' then
        store ''nntp'' (get_repos fr EmailSheet sh) spreadsheet
      else if name sh = ''Discourse'' then
        store ''discourse'' (get_repos fr DiscourseSheet sh) spreadsheet
      else if name sh = ''StackOverflow'' then
        store ''stackexchange'' (get_repos fr StackOverflow sh) spreadsheet
      else if name sh = ''Meetup'' then
        store ''meetup'' (get_repos fr Meetup sh) spreadsheet
      else if name sh = ''IRC'' then
        store ''supybot'' (get_repos fr IRC sh) spreadsheet
      else Inr spreadsheet)"

fun read_sheets ::
  "(rat \<Rightarrow> string) \<Rightarrow> sheet list \<Rightarrow> spreadsheet \<Rightarrow> py_error + spreadsheet" where
  "read_sheets fr [] spreadsheet = Inr spreadsheet"
| "read_sheets fr (sh # rest) spreadsheet =
     (case read_sheet fr sh spreadsheet of
        Inl e \<Rightarrow> Inl e
      | Inr spreadsheet' \<Rightarrow> read_sheets fr rest spreadsheet')"

subsection \<open>Grouping by project\<close>

text \<open>
  \<^verbatim>\<open>projects[project][datasource]\<close> is a set of repos. A set is a list without
  repetitions here; the order of its elements is of no account, since the only
  way the script reads a set is \<^verbatim>\<open>sorted\<close>. The body of the inner loop makes
  the project and the data source when they are missing, then adds the repo.
\<close>

type_synonym project_sets = "(cell \<times> (string \<times> cell list) list) list"

definition add_repo :: "string \<Rightarrow> cell \<Rightarrow> cell \<Rightarrow> project_sets \<Rightarrow> project_sets" where
  "add_repo datasource repo project projects =
     (let sources = (case map_of projects project of None \<Rightarrow> [] | Some d \<Rightarrow> d);
          repos = (case map_of sources datasource of None \<Rightarrow> [] | Some r \<Rightarrow> r)
      in AList.update project
           (AList.update datasource (List.insert repo repos) sources) projects)"

fun add_repos :: "string \<Rightarrow> sheet_result \<Rightarrow> project_sets \<Rightarrow> project_sets" where
  "add_repos datasource [] projects = projects"
| "add_repos datasource ((repo, project) # rest) projects =
     add_repos datasource rest (add_repo datasource repo project projects)"

fun aggregate :: "spreadsheet \<Rightarrow> project_sets \<Rightarrow> project_sets" where
  "aggregate [] projects = projects"
| "aggregate ((datasource, res) # rest) projects =
     aggregate rest (add_repos datasource res projects)"

subsection \<open>Sorting, \<^verbatim>\<open>meta\<close> and the adhoc repositories\<close>

text \<open>
  After the second loop of \<^verbatim>\<open>main\<close> a project maps each data source to a
  sorted list, and \<^verbatim>\<open>meta\<close> to a string: \<^verbatim>\<open>project.lower()\<close>, which raises
  \<^verbatim>\<open>AttributeError\<close> for a float.
\<close>

datatype entry = Repos "cell list" | Meta string

type_synonym project_tree = "(cell \<times> (string \<times> entry) list) list"

fun sort_datasources :: "(string \<times> cell list) list \<Rightarrow> py_error + (string \<times> entry) list" where
  "sort_datasources [] = Inr []"
| "sort_datasources ((datasource, repos) # rest) =
     (case py_sorted repos of
        Inl e \<Rightarrow> Inl e
      | Inr sorted_repos \<Rightarrow>
          (case sort_datasources rest of
             Inl e \<Rightarrow> Inl e
           | Inr rest' \<Rightarrow> Inr ((datasource, Repos sorted_repos) # rest')))"

definition finalize_project ::
  "cell \<Rightarrow> (string \<times> cell list) list \<Rightarrow> py_error + (string \<times> entry) list" where
  "finalize_project project sources =
     (case sort_datasources sources of
        Inl e \<Rightarrow> Inl e
      | Inr sources' \<Rightarrow>
          if map_of sources' ''meta'' = None then
            (case project of
               Text p \<Rightarrow> Inr (AList.update ''meta'' (Meta (py_lower p)) sources')
             | Number q \<Rightarrow> Inl AttributeError)
          else Inr sources')"

fun finalize :: "project_sets \<Rightarrow> py_error + project_tree" where
  "finalize [] = Inr []"
| "finalize ((project, sources) # rest) =
     (case finalize_project project sources of
        Inl e \<Rightarrow> Inl e
      | Inr sources' \<Rightarrow>
          (case finalize rest of
             Inl e \<Rightarrow> Inl e
           | Inr rest' \<Rightarrow> Inr ((project, sources') # rest')))"

definition init_unknown_project :: "project_tree \<Rightarrow> project_tree" where
  "init_unknown_project tree =
     (if map_of tree (Text ''unknown'') = None
      then AList.update (Text ''unknown'') [] tree else tree)"

text \<open>
  \<^verbatim>\<open>projects_tree['unknown'][datasource] = repos\<close>: the subscription
  \<^verbatim>\<open>projects_tree['unknown']\<close> raises \<^verbatim>\<open>KeyError\<close> when the project is
  missing; otherwise the dictionary of the project is changed in place.
\<close>

definition set_unknown :: "string \<Rightarrow> entry \<Rightarrow> project_tree \<Rightarrow> py_error + project_tree" where
  "set_unknown datasource repos tree =
     (case map_of tree (Text ''unknown'') of
        None \<Rightarrow> Inl KeyError
      | Some unknown \<Rightarrow>
          Inr (AList.update (Text ''unknown'') (AList.update datasource repos unknown) tree))"

definition add_adhoc_repositories ::
  "project_tree \<Rightarrow> spreadsheet \<Rightarrow> py_error + project_tree" where
  "add_adhoc_repositories projects_tree spreadsheet =
     (case set_unknown ''bugzillarest'' (Repos [Text ''https://bugzilla.mozilla.org''])
             (init_unknown_project projects_tree) of
        Inl e \<Rightarrow> Inl e
      | Inr tree1 \<Rightarrow>
     (case set_unknown ''discourse'' (Repos [Text ''https://discourse.mozilla.org/'']) tree1 of
        Inl e \<Rightarrow> Inl e
      | Inr tree2 \<Rightarrow>
     (case set_unknown ''mediawiki'' (Repos [Text ''https://wiki.mozilla.org'']) tree2 of
        Inl e \<Rightarrow> Inl e
      | Inr tree3 \<Rightarrow>
     (case set_unknown ''mozillaclub'' (Repos [Text ''https://spreadsheets.google.com/feeds/cells/1QHl2bjBhMslyFzR5XXPzMLdzzx7oeSKTbgR5PM8qp64/ohaibtm/public/values?alt=json'']) tree3 of
        Inl e \<Rightarrow> Inl e
      | Inr tree4 \<Rightarrow>
        set_unknown ''remo'' (Repos [Text ''https://reps.mozilla.org'']) tree4))))"

text \<open>The dictionary \<^verbatim>\<open>projects\<close> that \<^verbatim>\<open>main\<close> hands to \<^verbatim>\<open>json.dump\<close>.\<close>

definition main_projects :: "(rat \<Rightarrow> string) \<Rightarrow> sheet list \<Rightarrow> py_error + project_tree" where
  "main_projects fr wb =
     (case read_sheets fr wb [] of
        Inl e \<Rightarrow> Inl e
      | Inr spreadsheet \<Rightarrow>
          (case finalize (aggregate spreadsheet []) of
             Inl e \<Rightarrow> Inl e
           | Inr projects \<Rightarrow> add_adhoc_repositories projects spreadsheet))"

subsection \<open>\<^verbatim>\<open>json.dump(projects, json_fp, sort_keys=True, indent=4)\<close>\<close>

text \<open>
  The encoder of the standard library, for the values \<^verbatim>\<open>main\<close> gives it.
  A string is written between double quotes; a double quote and a backslash get a
  backslash, the control characters with a short escape get it, and every other
  character outside the range from space to tilde is written \<^verbatim>\<open>\u00xx\<close>
  with its code point in hexadecimal. A float is written by \<open>fr\<close>. The items
  of a list or of a dictionary stand on lines of their own, indented by four
  spaces per level and separated by a comma; an empty list is \<^verbatim>\<open>[]\<close>, an
  empty dictionary \<^verbatim>\<open>{}\<close>. With \<^verbatim>\<open>sort_keys\<close> the items of a dictionary are
  written in the order \<^verbatim>\<open>sorted\<close> gives their keys.
\<close>

definition hex_digit :: "nat \<Rightarrow> char" where
  "hex_digit n = (if n < 10 then char_of (48 + n) else char_of (87 + n))"

definition json_escape :: "char \<Rightarrow> string" where
  "json_escape c =
     (let n = (of_char c :: nat)
      in if n = 34 then [CHR 0x5C, CHR 0x22]
         else if n = 92 then [CHR 0x5C, CHR 0x5C]
         else if n = 10 then [CHR 0x5C, CHR ''n'']
         else if n = 13 then [CHR 0x5C, CHR ''r'']
         else if n = 9 then [CHR 0x5C, CHR ''t'']
         else if n = 12 then [CHR 0x5C, CHR ''f'']
         else if n = 8 then [CHR 0x5C, CHR ''b'']
         else if 32 \<le> n \<and> n \<le> 126 then [c]
         else [CHR 0x5C, CHR ''u'', CHR ''0'', CHR ''0'', hex_digit (n div 16), hex_digit (n mod 16)])"

definition json_string :: "string \<Rightarrow> string" where
  "json_string s = [CHR 0x22] @ concat (map json_escape s) @ [CHR 0x22]"

fun json_value :: "(rat \<Rightarrow> string) \<Rightarrow> cell \<Rightarrow> string" where
  "json_value fr (Text s) = json_string s"
| "json_value fr (Number q) = fr q"

fun json_key :: "(rat \<Rightarrow> string) \<Rightarrow> cell \<Rightarrow> string" where
  "json_key fr (Text s) = json_string s"
| "json_key fr (Number q) = json_string (fr q)"

definition newline_indent :: "nat \<Rightarrow> string" where
  "newline_indent level = CHR 0x0A # replicate (4 * level) CHR '' ''"

fun join :: "string \<Rightarrow> string list \<Rightarrow> string" where
  "join sep [] = []"
| "join sep [x] = x"
| "join sep (x # y # ys) = x @ sep @ join sep (y # ys)"

definition json_block :: "string \<Rightarrow> string \<Rightarrow> nat \<Rightarrow> string list \<Rightarrow> string" where
  "json_block opening closing level chunks =
     (if chunks = [] then opening @ closing
      else opening @ newline_indent (level + 1)
           @ join ('','' @ newline_indent (level + 1)) chunks
           @ newline_indent level @ closing)"

definition json_item :: "string \<Rightarrow> string \<Rightarrow> string" where
  "json_item k v = k @ '': '' @ v"

fun json_entry :: "(rat \<Rightarrow> string) \<Rightarrow> nat \<Rightarrow> entry \<Rightarrow> string" where
  "json_entry fr level (Repos repos) = json_block ''['' '']'' level (map (json_value fr) repos)"
| "json_entry fr level (Meta s) = json_string s"

definition json_project :: "(rat \<Rightarrow> string) \<Rightarrow> nat \<Rightarrow> (string \<times> entry) list \<Rightarrow> string" where
  "json_project fr level sources =
     json_block ''{'' ''}'' level
       (map (\<lambda>(k, v). json_item (json_string k) (json_entry fr (level + 1) v))
            (sort_key fst sources))"

definition json_dump :: "(rat \<Rightarrow> string) \<Rightarrow> project_tree \<Rightarrow> py_error + string" where
  "json_dump fr projects =
     (case py_sorted_by fst projects of
        Inl e \<Rightarrow> Inl e
      | Inr items \<Rightarrow>
          Inr (json_block ''{'' ''}'' 0
                 (map (\<lambda>(k, v). json_item (json_key fr k) (json_project fr 1 v)) items)))"

text \<open>
  \<^verbatim>\<open>main\<close>: the text written to the JSON file, or the exception that ends the
  run. The file is opened only after \<^verbatim>\<open>projects\<close> is complete, so a run that
  raises before writes nothing. Failures of the file system are not modelled.
\<close>

definition main :: "(rat \<Rightarrow> string) \<Rightarrow> sheet list \<Rightarrow> py_error + string" where
  "main fr wb =
     (case main_projects fr wb of
        Inl e \<Rightarrow> Inl e
      | Inr projects \<Rightarrow> json_dump fr projects)"

section \<open>Notions used in the proofs\<close>

text \<open>
  The set of repos that \<^verbatim>\<open>projects[project][datasource]\<close> holds, empty when
  the project or the data source is missing.
\<close>

definition repos_of :: "project_sets \<Rightarrow> cell \<Rightarrow> string \<Rightarrow> cell set" where
  "repos_of projects project datasource =
     (case map_of projects project of
        None \<Rightarrow> {}
      | Some sources \<Rightarrow>
          (case map_of sources datasource of None \<Rightarrow> {} | Some repos \<Rightarrow> set repos))"

text \<open>
  The dictionaries of \<^verbatim>\<open>projects\<close> have no key twice, and a set has no
  element twice.
\<close>

definition wf_sets :: "project_sets \<Rightarrow> bool" where
  "wf_sets projects \<longleftrightarrow>
     distinct (map fst projects)
     \<and> list_all (\<lambda>(project, sources).
          distinct (map fst sources)
          \<and> list_all (\<lambda>(datasource, repos). distinct repos \<and> repos \<noteq> []) sources) projects"

text \<open>
  A list of repos in ascending order without repetition: strings in the
  lexicographic order of their code points, or floats in numeric order.
\<close>

definition in_order :: "cell list \<Rightarrow> bool" where
  "in_order l \<longleftrightarrow>
     distinct l
     \<and> ((\<exists>ss. l = map Text ss \<and> sorted ss) \<or> (\<exists>qs. l = map Number qs \<and> sorted qs))"

fun in_order_entry :: "entry \<Rightarrow> bool" where
  "in_order_entry (Repos l) = in_order l"
| "in_order_entry (Meta s) = True"

text \<open>The data sources \<^verbatim>\<open>main\<close> can store in \<^verbatim>\<open>spreadsheet\<close>.\<close>

definition datasources :: "string list" where
  "datasources =
     [''github'', ''git'', ''bugzilla'', ''nntp'', ''discourse'', ''stackexchange'',
      ''meetup'', ''supybot'']"

text \<open>
  The names of the sheets that \<^verbatim>\<open>main\<close> reads, each with the class of its
  sheet object and the data source its dictionary is stored under.
\<close>

definition sheet_table :: "string \<Rightarrow> (sheet_class \<times> string) option" where
  "sheet_table n =
     (if n = ''Github'' then Some (GitHubSheet, ''github'')
      else if n = ''Bugzilla'' then Some (BugzillaSheet, ''bugzilla'')
      else if n = ''Mailing lists'' then Some (EmailSheet, ''nntp'')
      else if n = ''Discourse'' then Some (DiscourseSheet, ''discourse'')
      else if n = ''StackOverflow'' then Some (StackOverflow, ''stackexchange'')
      else if n = ''Meetup'' then Some (Meetup, ''meetup'')
      else if n = ''IRC'' then Some (IRC, ''supybot'')
      else None)"

text \<open>The five assignments of \<^verbatim>\<open>add_adhoc_repositories\<close>, in their order.\<close>

definition adhoc_repositories :: "(string \<times> entry) list" where
  "adhoc_repositories =
     [(''bugzillarest'', Repos [Text ''https://bugzilla.mozilla.org'']),
      (''discourse'', Repos [Text ''https://discourse.mozilla.org/'']),
      (''mediawiki'', Repos [Text ''https://wiki.mozilla.org'']),
      (''mozillaclub'', Repos [Text ''https://spreadsheets.google.com/feeds/cells/1QHl2bjBhMslyFzR5XXPzMLdzzx7oeSKTbgR5PM8qp64/ohaibtm/public/values?alt=json'']),
      (''remo'', Repos [Text ''https://reps.mozilla.org''])]"

text \<open>
  The dictionary that \<^verbatim>\<open>add_adhoc_repositories\<close> returns for \<open>tree\<close>: the
  five assignments made to the project \<^verbatim>\<open>unknown\<close> of
  \<open>init_unknown_project tree\<close>.
\<close>

definition adhoc_tree :: "project_tree \<Rightarrow> project_tree" where
  "adhoc_tree tree =
     AList.update (Text ''unknown'')
       (fold (\<lambda>(k, v). AList.update k v) adhoc_repositories
          (case map_of tree (Text ''unknown'') of None \<Rightarrow> [] | Some u \<Rightarrow> u))
       (init_unknown_project tree)"

section \<open>Properties of the string methods\<close>

lemma py_replace_absent:
  "(\<And>i. \<not> prefix old (drop i s)) \<Longrightarrow> py_replace old new s = s"
proof (induction s)
  case Nil
  then show ?case by simp
next
  case (Cons c cs)
  have "\<not> prefix old (c # cs)" using Cons.prems [of 0] by simp
  moreover have "\<not> prefix old (drop i cs)" for i using Cons.prems [of "Suc i"] by simp
  ultimately show ?case using Cons.IH by simp
qed

lemma filter_rev_upt_head:
  "filter P (rev [0..<Suc n]) = filter P (rev [1..<Suc n]) @ (if P 0 then [0] else [])"
proof -
  have "[0..<Suc n] = 0 # [1..<Suc n]" by (simp add: upt_rec)
  then show ?thesis by simp
qed

lemma py_rfind_zero_iff:
  assumes "sub \<noteq> []"
  shows "py_rfind s sub = 0 \<longleftrightarrow> prefix sub s \<and> (\<forall>i. 0 < i \<longrightarrow> \<not> prefix sub (drop i s))"
proof -
  let ?P = "\<lambda>i. prefix sub (drop i s)"
  let ?later = "filter ?P (rev [1..<Suc (length s)])"
  have later: "?later = [] \<longleftrightarrow> (\<forall>i. 0 < i \<longrightarrow> \<not> ?P i)"
  proof
    assume e: "?later = []"
    show "\<forall>i. 0 < i \<longrightarrow> \<not> ?P i"
    proof (intro allI impI)
      fix i :: nat assume "0 < i"
      show "\<not> ?P i"
      proof (cases "i \<le> length s")
        case True
        then have "i \<in> set (rev [1..<Suc (length s)])" using \<open>0 < i\<close> by auto
        then show ?thesis using e by (auto simp: filter_empty_conv simp del: upt_Suc)
      next
        case False
        then show ?thesis using assms by simp
      qed
    qed
  next
    assume "\<forall>i. 0 < i \<longrightarrow> \<not> ?P i"
    then show "?later = []" by (auto simp: filter_empty_conv simp del: upt_Suc)
  qed
  have pos: "0 < i" if "i \<in> set ?later" for i using that by auto
  have split: "py_rfind s sub = (case ?later @ (if ?P 0 then [0] else []) of [] \<Rightarrow> - 1 | i # _ \<Rightarrow> int i)"
    unfolding py_rfind_def filter_rev_upt_head ..
  show ?thesis
  proof (cases ?later)
    case Nil
    then show ?thesis using later split by (simp del: upt_Suc)
  next
    case (Cons j js)
    then have "0 < j" using pos [of j] by simp
    moreover have "?later \<noteq> []" using Cons by simp
    ultimately show ?thesis using later split Cons by (simp del: upt_Suc)
  qed
qed

lemma py_replace_leading_only:
  assumes "old \<noteq> []" "prefix old s" "\<And>i. 0 < i \<Longrightarrow> \<not> prefix old (drop i s)"
  shows "py_replace old new s = new @ drop (length old) s"
proof -
  obtain c cs where s: "s = c # cs" using assms(1,2) by (cases s) auto
  have d: "drop (length old - 1) cs = drop (length old) s"
    using assms(1) s by (cases old) auto
  have "\<not> prefix old (drop i (drop (length old) s))" for i
    using assms(3) [of "i + length old"] assms(1) by (simp add: add.commute)
  then have "py_replace old new (drop (length old) s) = drop (length old) s"
    by (rule py_replace_absent)
  then show ?thesis using assms(1,2) s d by simp
qed

section \<open>Mailing lists\<close>

text \<open>
  Claim C2, as the code has it. \<^verbatim>\<open>EmailSheet._normalize_repo\<close> rewrites the
  leading \<^verbatim>\<open>news.mozilla.org-\<close> of a string to \<^verbatim>\<open>news.mozilla.org \<close> when the
  string starts with it and holds no other occurrence of it; every other string
  is returned as it is. The test of the code is on \<^verbatim>\<open>rfind\<close>, the index of the
  last occurrence, so a string that starts with the prefix and holds it once more
  is left alone.
\<close>

theorem EmailSheet_normalize_repo_sole_prefix:
  "EmailSheet_normalize_repo (Text s) =
     Inr (Text (if prefix ''news.mozilla.org-'' s
                   \<and> (\<forall>i. 0 < i \<longrightarrow> \<not> prefix ''news.mozilla.org-'' (drop i s))
                then ''news.mozilla.org '' @ drop 17 s else s))"
proof -
  have ne: "''news.mozilla.org-'' \<noteq> []" by simp
  show ?thesis
  proof (cases "py_rfind s ''news.mozilla.org-'' = 0")
    case True
    then have p: "prefix ''news.mozilla.org-'' s"
      and l: "\<And>i. 0 < i \<Longrightarrow> \<not> prefix ''news.mozilla.org-'' (drop i s)"
      using py_rfind_zero_iff [OF ne, of s] by blast+
    have len: "length ''news.mozilla.org-'' = 17" by simp
    have "py_replace ''news.mozilla.org-'' ''news.mozilla.org '' s
            = ''news.mozilla.org '' @ drop (length ''news.mozilla.org-'') s"
      using ne p l by (rule py_replace_leading_only)
    then have "py_replace ''news.mozilla.org-'' ''news.mozilla.org '' s
            = ''news.mozilla.org '' @ drop 17 s"
      by (simp only: len)
    then show ?thesis using True p l by simp
  next
    case False
    then show ?thesis using py_rfind_zero_iff [OF ne, of s] by auto
  qed
qed

theorem EmailSheet_normalize_repo_sole_prefix_witness:
  "EmailSheet_normalize_repo (Text ''news.mozilla.org-dev.platform'')
     = Inr (Text ''news.mozilla.org dev.platform'')"
proof -
  have "py_rfind ''news.mozilla.org-dev.platform'' ''news.mozilla.org-'' = 0"
    by code_simp
  then have c: "prefix ''news.mozilla.org-'' ''news.mozilla.org-dev.platform''
      \<and> (\<forall>i. 0 < i \<longrightarrow> \<not> prefix ''news.mozilla.org-'' (drop i ''news.mozilla.org-dev.platform''))"
    by (subst (asm) py_rfind_zero_iff) simp_all
  have "EmailSheet_normalize_repo (Text ''news.mozilla.org-dev.platform'')
     = Inr (Text (''news.mozilla.org '' @ drop 17 ''news.mozilla.org-dev.platform''))"
    using EmailSheet_normalize_repo_sole_prefix [of "''news.mozilla.org-dev.platform''"]
    unfolding if_P [OF c] .
  then show ?thesis by simp
qed

text \<open>
  The claim as the specification states it fails on a string that starts with
  the prefix and holds it a second time: the leading prefix is not rewritten.
\<close>

theorem EmailSheet_normalize_repo_second_occurrence:
  "prefix ''news.mozilla.org-'' ''news.mozilla.org-a.news.mozilla.org-b''
   \<and> EmailSheet_normalize_repo (Text ''news.mozilla.org-a.news.mozilla.org-b'')
       = Inr (Text ''news.mozilla.org-a.news.mozilla.org-b'')
   \<and> ''news.mozilla.org-a.news.mozilla.org-b'' \<noteq> ''news.mozilla.org a.news.mozilla.org-b''"
  by code_simp



lemma get_repos_rows_entries:
  "get_repos_rows fr k sh rows acc = Inr res \<Longrightarrow>
     \<exists>es. map (row_entry fr k sh) rows = map Inr es
         \<and> res = fold (\<lambda>(repo, project). AList.update repo project) es acc"
proof (induction rows arbitrary: acc)
  case Nil
  then show ?case by simp
next
  case (Cons row rows)
  from Cons.prems obtain repo project where e: "row_entry fr k sh row = Inr (repo, project)"
    and r: "get_repos_rows fr k sh rows (AList.update repo project acc) = Inr res"
    by (auto split: sum.splits)
  from Cons.IH [OF r] obtain es where "map (row_entry fr k sh) rows = map Inr es"
    and "res = fold (\<lambda>(repo, project). AList.update repo project) es (AList.update repo project acc)"
    by blast
  then have "map (row_entry fr k sh) (row # rows) = map Inr ((repo, project) # es)
     \<and> res = fold (\<lambda>(repo, project). AList.update repo project) ((repo, project) # es) acc"
    using e by simp
  then show ?case by blast
qed


lemma map_of_fold_update:
  "map_of (fold (\<lambda>(k, v). AList.update k v) es acc) x =
     (case map_of (rev es) x of None \<Rightarrow> map_of acc x | Some v \<Rightarrow> Some v)"
proof (induction es arbitrary: acc)
  case Nil
  then show ?case by simp
next
  case (Cons e es)
  obtain k v where e: "e = (k, v)" by (cases e)
  show ?case
    by (simp add: e Cons.IH update_conv' map_add_def split: option.splits)
qed

lemma distinct_fold_update:
  "distinct (map fst acc) \<Longrightarrow> distinct (map fst (fold (\<lambda>(k, v). AList.update k v) es acc))"
  by (induction es arbitrary: acc) (auto simp: distinct_update)

lemma keys_fold_update:
  "fst ` set (fold (\<lambda>(k, v). AList.update k v) es acc) = fst ` set acc \<union> fst ` set es"
proof (induction es arbitrary: acc)
  case Nil
  then show ?case by simp
next
  case (Cons e es)
  obtain k v where e: "e = (k, v)" by (cases e)
  have "fst ` set (fold (\<lambda>(k, v). AList.update k v) (e # es) acc)
      = fst ` set (AList.update k v acc) \<union> fst ` set es"
    using Cons.IH [of "AList.update k v acc"] by (simp add: e)
  then show ?case by (simp add: dom_update e)
qed


lemma map_Inr_mem:
  assumes "map f xs = map Inr es"
  shows "e \<in> set es \<longleftrightarrow> (\<exists>x\<in>set xs. f x = Inr e)"
proof -
  have "set (map f xs) = set (map Inr es)" using assms by simp
  then have eq: "f ` set xs = Inr ` set es" by simp
  show ?thesis
  proof
    assume "e \<in> set es"
    then have "Inr e \<in> f ` set xs" unfolding eq by (rule imageI)
    then show "\<exists>x\<in>set xs. f x = Inr e" by (auto simp: image_iff)
  next
    assume "\<exists>x\<in>set xs. f x = Inr e"
    then obtain x where "x \<in> set xs" "f x = Inr e" by blast
    then have "Inr e \<in> f ` set xs" by (metis imageI)
    then show "e \<in> set es" unfolding eq by auto
  qed
qed

lemma map_Inr_nth:
  assumes "map f xs = map Inr es" "i < length xs"
  shows "i < length es \<and> f (xs ! i) = Inr (es ! i)"
proof -
  have l: "length xs = length es" using arg_cong [OF assms(1), of length] by simp
  have "map f xs ! i = map Inr es ! i" using assms(1) by simp
  then show ?thesis using assms(2) l by simp
qed


section \<open>GitHub\<close>




lemma py_replace_space:
  "py_replace '' '' ''+'' s = map (\<lambda>c. if c = CHR '' '' then CHR ''+'' else c) s"
  by (induction s) auto



lemma map_of_rev_last:
  assumes "i < length es" "es ! i = (key, p)"
    and "\<And>i'. i < i' \<Longrightarrow> i' < length es \<Longrightarrow> fst (es ! i') \<noteq> key"
  shows "map_of (rev es) key = Some p"
proof -
  have es: "es = take i es @ (key, p) # drop (Suc i) es"
    using assms(1,2) by (metis id_take_nth_drop)
  have "key \<notin> fst ` set (drop (Suc i) es)"
  proof
    assume "key \<in> fst ` set (drop (Suc i) es)"
    then obtain e where "e \<in> set (drop (Suc i) es)" "fst e = key" by auto
    then obtain n where "n < length (drop (Suc i) es)" "drop (Suc i) es ! n = e"
      by (auto simp: in_set_conv_nth)
    then have "Suc i + n < length es" "es ! (Suc i + n) = e" by (simp_all add: less_diff_conv add.commute)
    then show False using assms(3) [of "Suc i + n"] \<open>fst e = key\<close> by simp
  qed
  then have "map_of (rev (drop (Suc i) es)) key = None"
    by (simp add: map_of_eq_None_iff)
  moreover have "rev es = rev (drop (Suc i) es) @ (key, p) # rev (take i es)"
    by (subst es) simp
  ultimately show ?thesis by (simp add: map_add_def)
qed

section \<open>Rows that repeat a repo\<close>



section \<open>Properties of the grouping\<close>



lemma set_update_subset: "set (AList.update k v al) \<subseteq> insert (k, v) (set al)"
  by (induction al) auto

lemma update_absent: "k \<notin> fst ` set al \<Longrightarrow> AList.update k v al = al @ [(k, v)]"
  by (induction al) auto

lemma map_of_mem: "distinct (map fst al) \<Longrightarrow> (k, v) \<in> set al \<longleftrightarrow> map_of al k = Some v"
  by (auto dest: map_of_SomeD)

lemma map_of_add_repo:
  "map_of (add_repo d r p ps) p' =
     (if p' = p
      then Some (AList.update d
             (List.insert r (case map_of (case map_of ps p of None \<Rightarrow> [] | Some s \<Rightarrow> s) d of
                               None \<Rightarrow> [] | Some l \<Rightarrow> l))
             (case map_of ps p of None \<Rightarrow> [] | Some s \<Rightarrow> s))
      else map_of ps p')"
  by (simp add: add_repo_def Let_def update_conv')

lemma repos_of_add_repo:
  "repos_of (add_repo d r p ps) p' d' =
     (if p' = p \<and> d' = d then insert r (repos_of ps p d) else repos_of ps p' d')"
  by (auto simp: repos_of_def map_of_add_repo update_conv' split: option.splits)

lemma keys_add_repo: "fst ` set (add_repo d r p ps) = insert p (fst ` set ps)"
  by (simp add: add_repo_def Let_def dom_update)




lemma wf_sets_iff:
  "wf_sets ps \<longleftrightarrow>
     distinct (map fst ps)
     \<and> (\<forall>p s. (p, s) \<in> set ps \<longrightarrow>
           distinct (map fst s) \<and> (\<forall>d l. (d, l) \<in> set s \<longrightarrow> distinct l \<and> l \<noteq> []))"
  unfolding wf_sets_def list_all_iff by (simp add: split_beta Ball_def)

lemma in_update_cases:
  "(k', v') \<in> set (AList.update k v al) \<Longrightarrow> (k' = k \<and> v' = v) \<or> (k', v') \<in> set al"
  using set_update_subset [of k v al] by blast

lemma wf_sets_add_repo:
  assumes "wf_sets ps"
  shows "wf_sets (add_repo d r p ps)"
proof -
  define src where "src = (case map_of ps p of None \<Rightarrow> [] | Some s \<Rightarrow> s)"
  define l where "l = (case map_of src d of None \<Rightarrow> [] | Some l \<Rightarrow> l)"
  have ar: "add_repo d r p ps = AList.update p (AList.update d (List.insert r l) src) ps"
    by (simp add: add_repo_def Let_def src_def l_def)
  have ps: "distinct (map fst ps)"
    and psI: "\<And>p s. (p, s) \<in> set ps \<Longrightarrow>
           distinct (map fst s) \<and> (\<forall>d l. (d, l) \<in> set s \<longrightarrow> distinct l \<and> l \<noteq> [])"
    using assms unfolding wf_sets_iff by blast+
  have src: "distinct (map fst src) \<and> (\<forall>d l. (d, l) \<in> set src \<longrightarrow> distinct l \<and> l \<noteq> [])"
  proof (cases "map_of ps p")
    case None
    then show ?thesis by (simp add: src_def)
  next
    case (Some s)
    then have "(p, s) \<in> set ps" by (rule map_of_SomeD)
    then show ?thesis using psI [of p s] Some by (simp add: src_def)
  qed
  have l: "distinct l"
  proof (cases "map_of src d")
    case None
    then show ?thesis by (simp add: l_def)
  next
    case (Some l')
    then have "(d, l') \<in> set src" by (rule map_of_SomeD)
    then show ?thesis using src Some by (simp add: l_def)
  qed
  have ins: "distinct (List.insert r l) \<and> List.insert r l \<noteq> []"
    using l by (auto simp: List.insert_def)
  have new: "distinct (map fst (AList.update d (List.insert r l) src))
      \<and> (\<forall>d' l'. (d', l') \<in> set (AList.update d (List.insert r l) src) \<longrightarrow> distinct l' \<and> l' \<noteq> [])"
  proof (intro conjI allI impI)
    show "distinct (map fst (AList.update d (List.insert r l) src))"
      using src by (simp add: distinct_update)
  next
    fix d' l' assume "(d', l') \<in> set (AList.update d (List.insert r l) src)"
    then have "(d' = d \<and> l' = List.insert r l) \<or> (d', l') \<in> set src"
      by (rule in_update_cases)
    then have "distinct l' \<and> l' \<noteq> []" using src ins by auto
    then show "distinct l'" "l' \<noteq> []" by simp_all
  qed
  show ?thesis
    unfolding wf_sets_iff ar
  proof (intro conjI allI impI)
    show "distinct (map fst (AList.update p (AList.update d (List.insert r l) src) ps))"
      using ps by (rule distinct_update)
  next
    fix p' s' assume "(p', s') \<in> set (AList.update p (AList.update d (List.insert r l) src) ps)"
    then have c: "(p' = p \<and> s' = AList.update d (List.insert r l) src) \<or> (p', s') \<in> set ps"
      by (rule in_update_cases)
    then show "distinct (map fst s')" using new psI [of p' s'] by blast
    fix d' l' assume "(d', l') \<in> set s'"
    then have "distinct l' \<and> l' \<noteq> []" using c new psI [of p' s'] by auto
    then show "distinct l'" "l' \<noteq> []" by simp_all
  qed
qed

lemma wf_sets_aggregate: "wf_sets ps \<Longrightarrow> wf_sets (aggregate sp ps)"
proof (induction sp ps rule: aggregate.induct)
  case (1 projects)
  then show ?case by simp
next
  case (2 datasource res rest projects)
  have "wf_sets (add_repos datasource res projects)" using "2.prems"
    by (induction datasource res projects rule: add_repos.induct) (simp_all add: wf_sets_add_repo)
  then show ?case using "2.IH" by simp
qed


lemma aggregate_induct:
  assumes "P ps0"
    and "\<And>d res r p ps. (d, res) \<in> set sp \<Longrightarrow> (r, p) \<in> set res \<Longrightarrow> P ps \<Longrightarrow> P (add_repo d r p ps)"
  shows "P (aggregate sp ps0)"
proof -
  have inner: "P (add_repos d items ps)"
    if "P ps" "\<And>r p ps. (r, p) \<in> set items \<Longrightarrow> P ps \<Longrightarrow> P (add_repo d r p ps)"
    for d items ps
    using that
  proof (induction d items ps rule: add_repos.induct)
    case (1 datasource projects)
    then show ?case by simp
  next
    case (2 datasource repo project rest projects)
    have "P (add_repo datasource repo project projects)"
      using "2.prems"(1) by (rule "2.prems"(2) [rotated]) simp
    moreover have "P (add_repo datasource r p ps)" if "(r, p) \<in> set rest" "P ps" for r p ps
      using that(2) by (rule "2.prems"(2) [rotated]) (simp add: that(1))
    ultimately have "P (add_repos datasource rest (add_repo datasource repo project projects))"
      by (rule "2.IH")
    then show ?case by simp
  qed
  show ?thesis using assms
  proof (induction sp ps0 rule: aggregate.induct)
    case (1 projects)
    then show ?case by simp
  next
    case (2 datasource res rest projects)
    have "P (add_repos datasource res projects)"
    proof (rule inner)
      show "P projects" by fact
    next
      fix r p ps assume "(r, p) \<in> set res" "P ps"
      then show "P (add_repo datasource r p ps)"
        using "2.prems"(2) [of datasource res r p ps] by simp
    qed
    moreover have "P (add_repo d r p ps)"
      if "(d, res') \<in> set rest" "(r, p) \<in> set res'" "P ps" for d res' r p ps
      using "2.prems"(2) [of d res' r p ps] that by simp
    ultimately have "P (aggregate rest (add_repos datasource res projects))"
      by (rule "2.IH")
    then show ?case by simp
  qed
qed



lemma repos_of_add_repos:
  "repos_of (add_repos d items ps) p' d' =
     repos_of ps p' d' \<union> (if d' = d then {r. (r, p') \<in> set items} else {})"
proof (induction d items ps rule: add_repos.induct)
  case (1 datasource projects)
  then show ?case by simp
next
  case (2 datasource repo project rest projects)
  show ?case
    unfolding add_repos.simps "2.IH" repos_of_add_repo by auto
qed

lemma repos_of_aggregate:
  "repos_of (aggregate sp ps) p d =
     repos_of ps p d \<union> {r. \<exists>res. (d, res) \<in> set sp \<and> (r, p) \<in> set res}"
proof (induction sp ps rule: aggregate.induct)
  case (1 projects)
  then show ?case by simp
next
  case (2 datasource res rest projects)
  show ?case
    unfolding aggregate.simps "2.IH" repos_of_add_repos by auto
qed

lemma keys_add_repos:
  "p \<in> fst ` set (add_repos d items ps) \<longleftrightarrow> p \<in> fst ` set ps \<or> (\<exists>r. (r, p) \<in> set items)"
proof (induction d items ps rule: add_repos.induct)
  case (1 datasource projects)
  then show ?case by simp
next
  case (2 datasource repo project rest projects)
  show ?case
    unfolding add_repos.simps "2.IH" keys_add_repo by auto
qed

lemma keys_aggregate:
  "p \<in> fst ` set (aggregate sp ps) \<longleftrightarrow>
     p \<in> fst ` set ps \<or> (\<exists>d res r. (d, res) \<in> set sp \<and> (r, p) \<in> set res)"
proof (induction sp ps rule: aggregate.induct)
  case (1 projects)
  then show ?case by simp
next
  case (2 datasource res rest projects)
  show ?case
    unfolding aggregate.simps "2.IH" keys_add_repos by auto
qed

section \<open>Properties of sorting, \<^verbatim>\<open>meta\<close> and the adhoc repositories\<close>


lemma in_update_distinct_cases:
  "distinct (map fst al) \<Longrightarrow> (k', v') \<in> set (AList.update k v al) \<Longrightarrow>
     (k' = k \<and> v' = v) \<or> (k' \<noteq> k \<and> (k', v') \<in> set al)"
proof (induction al)
  case Nil
  then show ?case by simp
next
  case (Cons a al)
  then show ?case by (cases a) (auto simp: image_iff split: if_splits)
qed

lemma py_sorted_in_order:
  assumes "py_sorted l = Inr l'" "distinct l"
  shows "in_order l' \<and> set l' = set l"
proof (cases "list_all is_Text l")
  case True
  then have l': "l' = sort_key text_of l" using assms(1) by (simp add: py_sorted_def py_sorted_by_def)
  have set: "set l' = set l" by (simp add: l')
  have "distinct l'" using assms(2) by (simp add: l')
  moreover have "sorted (map text_of l')" by (simp add: l')
  moreover have "l' = map Text (map text_of l')"
  proof -
    have "\<forall>x\<in>set l'. Text (text_of x) = x"
    proof
      fix x assume "x \<in> set l'"
      then have "is_Text x" using True set by (simp add: list_all_iff)
      then show "Text (text_of x) = x" by (cases x) simp_all
    qed
    then show ?thesis by (simp add: map_idI)
  qed
  ultimately show ?thesis using set unfolding in_order_def by blast
next
  case False
  then have n: "list_all (\<lambda>x. \<not> is_Text x) l" and l': "l' = sort_key number_of l"
    using assms(1) by (auto simp: py_sorted_def py_sorted_by_def split: if_splits)
  have set: "set l' = set l" by (simp add: l')
  have "distinct l'" using assms(2) by (simp add: l')
  moreover have "sorted (map number_of l')" by (simp add: l')
  moreover have "l' = map Number (map number_of l')"
  proof -
    have "\<forall>x\<in>set l'. Number (number_of x) = x"
    proof
      fix x assume "x \<in> set l'"
      then have "\<not> is_Text x" using n set by (simp add: list_all_iff)
      then show "Number (number_of x) = x" by (cases x) simp_all
    qed
    then show ?thesis by (simp add: map_idI)
  qed
  ultimately show ?thesis using set unfolding in_order_def by blast
qed

lemma sort_datasources_keys:
  "sort_datasources src = Inr s \<Longrightarrow> map fst s = map fst src"
proof (induction src arbitrary: s)
  case Nil
  then show ?case by simp
next
  case (Cons a src)
  obtain d repos where a: "a = (d, repos)" by (cases a)
  from Cons.prems obtain l s' where "py_sorted repos = Inr l" "sort_datasources src = Inr s'"
    "s = (d, Repos l) # s'"
    by (auto simp: a split: sum.splits)
  then show ?case using Cons.IH [of s'] a by simp
qed

lemma sort_datasources_mem:
  "sort_datasources src = Inr s \<Longrightarrow> (d, e) \<in> set s \<Longrightarrow>
     \<exists>repos l. (d, repos) \<in> set src \<and> py_sorted repos = Inr l \<and> e = Repos l"
proof (induction src arbitrary: s)
  case Nil
  then show ?case by simp
next
  case (Cons a src)
  obtain d0 repos0 where a: "a = (d0, repos0)" by (cases a)
  from Cons.prems(1) obtain l s' where h: "py_sorted repos0 = Inr l" "sort_datasources src = Inr s'"
    "s = (d0, Repos l) # s'"
    by (auto simp: a split: sum.splits)
  from Cons.prems(2) h(3) have "(d, e) = (d0, Repos l) \<or> (d, e) \<in> set s'" by simp
  then show ?case
  proof
    assume "(d, e) = (d0, Repos l)"
    then show ?thesis using h(1) a by auto
  next
    assume "(d, e) \<in> set s'"
    from Cons.IH [OF h(2) this] show ?thesis by auto
  qed
qed

lemma sort_datasources_map_of:
  "sort_datasources src = Inr s \<Longrightarrow> map_of src d = Some repos \<Longrightarrow>
     \<exists>l. py_sorted repos = Inr l \<and> map_of s d = Some (Repos l)"
proof (induction src arbitrary: s)
  case Nil
  then show ?case by simp
next
  case (Cons a src)
  obtain d0 repos0 where a: "a = (d0, repos0)" by (cases a)
  from Cons.prems(1) obtain l s' where h: "py_sorted repos0 = Inr l" "sort_datasources src = Inr s'"
    "s = (d0, Repos l) # s'"
    by (auto simp: a split: sum.splits)
  show ?case
  proof (cases "d = d0")
    case True
    then show ?thesis using Cons.prems(2) h a by simp
  next
    case False
    then have "map_of src d = Some repos" using Cons.prems(2) a by simp
    from Cons.IH [OF h(2) this] show ?thesis using False h(3) by simp
  qed
qed



lemma finalize_project_cases:
  assumes "finalize_project p src = Inr s'"
  shows "\<exists>s. sort_datasources src = Inr s \<and>
           ((map_of s ''meta'' = None
               \<and> (\<exists>nm. p = Text nm \<and> s' = AList.update ''meta'' (Meta (py_lower nm)) s))
            \<or> (map_of s ''meta'' \<noteq> None \<and> s' = s))"
proof -
  from assms obtain s where s: "sort_datasources src = Inr s"
    by (auto simp: finalize_project_def split: sum.splits)
  show ?thesis
  proof (cases "map_of s ''meta'' = None")
    case True
    then obtain nm where "p = Text nm" "s' = AList.update ''meta'' (Meta (py_lower nm)) s"
      using assms s by (cases p) (simp_all add: finalize_project_def)
    then show ?thesis using s True by blast
  next
    case False
    then have "s' = s" using assms s by (auto simp: finalize_project_def)
    then show ?thesis using s False by blast
  qed
qed

lemma finalize_keys: "finalize ps = Inr t \<Longrightarrow> map fst t = map fst ps"
proof (induction ps arbitrary: t)
  case Nil
  then show ?case by simp
next
  case (Cons a ps)
  obtain p src where a: "a = (p, src)" by (cases a)
  from Cons.prems obtain s' t' where "finalize_project p src = Inr s'" "finalize ps = Inr t'"
    "t = (p, s') # t'"
    by (auto simp: a split: sum.splits)
  then show ?case using Cons.IH [of t'] a by simp
qed

lemma finalize_mem:
  "finalize ps = Inr t \<Longrightarrow> (p, s') \<in> set t \<Longrightarrow>
     \<exists>src. (p, src) \<in> set ps \<and> finalize_project p src = Inr s'"
proof (induction ps arbitrary: t)
  case Nil
  then show ?case by simp
next
  case (Cons a ps)
  obtain p0 src0 where a: "a = (p0, src0)" by (cases a)
  from Cons.prems(1) obtain s0 t' where h: "finalize_project p0 src0 = Inr s0"
    "finalize ps = Inr t'" "t = (p0, s0) # t'"
    by (auto simp: a split: sum.splits)
  from Cons.prems(2) h(3) have "(p, s') = (p0, s0) \<or> (p, s') \<in> set t'" by simp
  then show ?case
  proof
    assume "(p, s') = (p0, s0)"
    then show ?thesis using h(1) a by auto
  next
    assume "(p, s') \<in> set t'"
    from Cons.IH [OF h(2) this] show ?thesis by auto
  qed
qed

lemma finalize_map_of:
  "finalize ps = Inr t \<Longrightarrow> map_of ps p = Some src \<Longrightarrow>
     \<exists>s'. map_of t p = Some s' \<and> finalize_project p src = Inr s'"
proof (induction ps arbitrary: t)
  case Nil
  then show ?case by simp
next
  case (Cons a ps)
  obtain p0 src0 where a: "a = (p0, src0)" by (cases a)
  from Cons.prems(1) obtain s0 t' where h: "finalize_project p0 src0 = Inr s0"
    "finalize ps = Inr t'" "t = (p0, s0) # t'"
    by (auto simp: a split: sum.splits)
  show ?case
  proof (cases "p = p0")
    case True
    then show ?thesis using Cons.prems(2) h a by simp
  next
    case False
    then have "map_of ps p = Some src" using Cons.prems(2) a by simp
    from Cons.IH [OF h(2) this] show ?thesis using False h(3) by simp
  qed
qed

lemma finalize_map_of_None:
  "finalize ps = Inr t \<Longrightarrow> map_of t p = None \<longleftrightarrow> map_of ps p = None"
  using finalize_keys [of ps t] by (metis map_of_eq_None_iff set_map)

lemma set_unknown_present:
  "map_of tree (Text ''unknown'') = Some u \<Longrightarrow>
     set_unknown k v tree = Inr (AList.update (Text ''unknown'') (AList.update k v u) tree)"
  by (simp add: set_unknown_def)

lemma add_adhoc_fold: "add_adhoc_repositories t sp = Inr (adhoc_tree t)"
proof -
  define u0 where "u0 = (case map_of t (Text ''unknown'') of None \<Rightarrow> [] | Some u \<Rightarrow> u)"
  define t0 where "t0 = init_unknown_project t"
  have 0: "map_of t0 (Text ''unknown'') = Some u0"
    by (simp add: t0_def u0_def init_unknown_project_def update_conv' split: option.splits)
  have step: "set_unknown k v (AList.update (Text ''unknown'') u t0)
      = Inr (AList.update (Text ''unknown'') (AList.update k v u) t0)" for k v u
    by (simp add: set_unknown_def update_conv')
  have first: "set_unknown k v t0 = Inr (AList.update (Text ''unknown'') (AList.update k v u0) t0)"
    for k v
    using 0 by (rule set_unknown_present)
  show ?thesis
    unfolding add_adhoc_repositories_def adhoc_tree_def adhoc_repositories_def
      t0_def [symmetric] u0_def [symmetric]
    by (simp add: first step)
qed

lemma map_of_add_adhoc:
  "map_of (adhoc_tree t) p =
     (if p = Text ''unknown''
      then Some (fold (\<lambda>(k, v). AList.update k v) adhoc_repositories
                   (case map_of t (Text ''unknown'') of None \<Rightarrow> [] | Some u \<Rightarrow> u))
      else map_of t p)"
  unfolding adhoc_tree_def by (simp add: init_unknown_project_def update_conv')

lemma add_adhoc_mem:
  assumes "distinct (map fst t)" "(p, src) \<in> set (adhoc_tree t)"
  shows "(p = Text ''unknown'' \<and> map_of (adhoc_tree t) p = Some src)
         \<or> (p \<noteq> Text ''unknown'' \<and> (p, src) \<in> set t)"
proof -
  have d: "distinct (map fst (init_unknown_project t))"
    using assms(1) by (simp add: init_unknown_project_def distinct_update)
  have d2: "distinct (map fst (adhoc_tree t))"
    unfolding adhoc_tree_def using d by (rule distinct_update)
  have m: "map_of (adhoc_tree t) p = Some src"
    using d2 assms(2) by simp
  show ?thesis
  proof (cases "p = Text ''unknown''")
    case True
    then show ?thesis using m by simp
  next
    case False
    then have "map_of t p = Some src" using m by (simp add: map_of_add_adhoc)
    then show ?thesis using False by (auto dest: map_of_SomeD)
  qed
qed

lemma fold_update_mem:
  "(k, v) \<in> set (fold (\<lambda>(k, v). AList.update k v) es acc) \<Longrightarrow> (k, v) \<in> set es \<or> (k, v) \<in> set acc"
proof (induction es arbitrary: acc)
  case Nil
  then show ?case by simp
next
  case (Cons e es)
  obtain k0 v0 where e: "e = (k0, v0)" by (cases e)
  from Cons.prems have "(k, v) \<in> set (fold (\<lambda>(k, v). AList.update k v) es (AList.update k0 v0 acc))"
    by (simp add: e)
  then have "(k, v) \<in> set es \<or> (k, v) \<in> set (AList.update k0 v0 acc)" by (rule Cons.IH)
  then show ?case using in_update_cases [of k v k0 v0 acc] e by auto
qed

lemma adhoc_in_order: "(d, e) \<in> set adhoc_repositories \<Longrightarrow> \<exists>x. e = Repos [Text x]"
  by (auto simp: adhoc_repositories_def)

lemma adhoc_keys:
  "map fst adhoc_repositories = [''bugzillarest'', ''discourse'', ''mediawiki'', ''mozillaclub'', ''remo'']"
  by (simp add: adhoc_repositories_def)


section \<open>Properties of reading the sheets\<close>


lemma read_sheet_table:
  "read_sheet fr sh sp =
     (case sheet_table (name sh) of
        None \<Rightarrow> Inr sp
      | Some (k, d) \<Rightarrow>
          (case get_repos fr k sh of
             Inl e \<Rightarrow> Inl e
           | Inr res \<Rightarrow>
               if k = GitHubSheet then
                 (case git_repos res [] of
                    Inl e \<Rightarrow> Inl e
                  | Inr git \<Rightarrow> Inr (AList.update ''git'' git (AList.update d res sp)))
               else Inr (AList.update d res sp)))"
  by (auto simp: read_sheet_def sheet_table_def store_def split: sum.splits)

lemma sheet_table_datasource:
  "sheet_table n = Some (k, d) \<Longrightarrow>
     d \<in> set datasources \<and> d \<noteq> ''git'' \<and> d \<noteq> ''meta'' \<and> (k = GitHubSheet \<longleftrightarrow> d = ''github'')"
  by (auto simp: sheet_table_def datasources_def split: if_splits)

lemma read_sheet_cases:
  assumes "read_sheet fr sh sp = Inr sp'"
  obtains (skip) "sheet_table (name sh) = None" "sp' = sp"
  | (github) res git where "sheet_table (name sh) = Some (GitHubSheet, ''github'')"
      "get_repos fr GitHubSheet sh = Inr res" "git_repos res [] = Inr git"
      "sp' = AList.update ''git'' git (AList.update ''github'' res sp)"
  | (other) k d res where "sheet_table (name sh) = Some (k, d)" "k \<noteq> GitHubSheet"
      "get_repos fr k sh = Inr res" "sp' = AList.update d res sp"
proof (cases "sheet_table (name sh)")
  case None
  then show ?thesis using assms skip by (simp add: read_sheet_table)
next
  case (Some a)
  obtain k d where a: "a = (k, d)" by (cases a)
  obtain res where res: "get_repos fr k sh = Inr res"
    using assms Some a by (auto simp: read_sheet_table split: sum.splits)
  show ?thesis
  proof (cases "k = GitHubSheet")
    case True
    then have d: "d = ''github''" using sheet_table_datasource [of "name sh" k d] Some a by simp
    obtain git where "git_repos res [] = Inr git"
      "sp' = AList.update ''git'' git (AList.update ''github'' res sp)"
      using assms Some a res True d by (auto simp: read_sheet_table split: sum.splits)
    then show ?thesis using github Some a True d res by simp
  next
    case False
    then have "sp' = AList.update d res sp"
      using assms Some a res by (simp add: read_sheet_table)
    then show ?thesis using other Some a False res by simp
  qed
qed

lemma read_sheet_keys:
  assumes "read_sheet fr sh sp = Inr sp'"
  shows "fst ` set sp' \<subseteq> fst ` set sp \<union> set datasources"
  using assms
proof (cases rule: read_sheet_cases)
  case skip
  then show ?thesis by auto
next
  case (github res git)
  then show ?thesis by (auto simp: dom_update datasources_def)
next
  case (other k d res)
  then have "d \<in> set datasources" using sheet_table_datasource by blast
  moreover have "fst ` set sp' = insert d (fst ` set sp)" using other(4) by (simp add: dom_update)
  ultimately show ?thesis by auto
qed

lemma read_sheets_keys:
  "read_sheets fr wb sp = Inr sp' \<Longrightarrow> fst ` set sp' \<subseteq> fst ` set sp \<union> set datasources"
proof (induction wb arbitrary: sp)
  case Nil
  then show ?case by auto
next
  case (Cons sh wb)
  from Cons.prems obtain sp1 where 1: "read_sheet fr sh sp = Inr sp1"
    and 2: "read_sheets fr wb sp1 = Inr sp'"
    by (auto split: sum.splits)
  show ?case using read_sheet_keys [OF 1] Cons.IH [OF 2] by blast
qed

lemma aggregate_datasources:
  "(p, src) \<in> set (aggregate sp []) \<Longrightarrow> fst ` set src \<subseteq> fst ` set sp"
proof -
  have "\<forall>p src. (p, src) \<in> set (aggregate sp []) \<longrightarrow> fst ` set src \<subseteq> fst ` set sp"
  proof (rule aggregate_induct)
    show "\<forall>p src. (p, src) \<in> set [] \<longrightarrow> fst ` set src \<subseteq> fst ` set sp" by simp
  next
    fix d res r p and ps :: project_sets
    assume d: "(d, res) \<in> set sp" and "(r, p) \<in> set res"
      and ih: "\<forall>p src. (p, src) \<in> set ps \<longrightarrow> fst ` set src \<subseteq> fst ` set sp"
    define src0 where "src0 = (case map_of ps p of None \<Rightarrow> [] | Some s \<Rightarrow> s)"
    have src0: "fst ` set src0 \<subseteq> fst ` set sp"
    proof (cases "map_of ps p")
      case None
      then show ?thesis by (simp add: src0_def)
    next
      case (Some s)
      then have "(p, s) \<in> set ps" by (rule map_of_SomeD)
      then show ?thesis using ih Some by (simp add: src0_def)
    qed
    show "\<forall>p' src. (p', src) \<in> set (add_repo d r p ps) \<longrightarrow> fst ` set src \<subseteq> fst ` set sp"
    proof (intro allI impI)
      fix p' src assume "(p', src) \<in> set (add_repo d r p ps)"
      then have "(p' = p \<and> src = AList.update d
            (List.insert r (case map_of src0 d of None \<Rightarrow> [] | Some l \<Rightarrow> l)) src0)
          \<or> (p', src) \<in> set ps"
        unfolding add_repo_def Let_def src0_def by (rule in_update_cases)
      then show "fst ` set src \<subseteq> fst ` set sp"
      proof
        assume "p' = p \<and> src = AList.update d
            (List.insert r (case map_of src0 d of None \<Rightarrow> [] | Some l \<Rightarrow> l)) src0"
        then have "fst ` set src = insert d (fst ` set src0)" by (simp add: dom_update)
        moreover have "d \<in> fst ` set sp" using d by force
        ultimately show ?thesis using src0 by simp
      next
        assume "(p', src) \<in> set ps"
        then show ?thesis using ih by simp
      qed
    qed
  qed
  then show "(p, src) \<in> set (aggregate sp []) \<Longrightarrow> fst ` set src \<subseteq> fst ` set sp" by simp
qed

lemma wf_sets_Nil: "wf_sets []"
  by (simp add: wf_sets_def)



lemma main_projects_stages:
  assumes "main_projects fr wb = Inr tree"
  obtains sp t where "read_sheets fr wb [] = Inr sp" "finalize (aggregate sp []) = Inr t"
    "tree = adhoc_tree t"
  using assms by (auto simp: main_projects_def add_adhoc_fold split: sum.splits)

lemma finalized_entry:
  assumes "finalize (aggregate sp []) = Inr t" "(p, s') \<in> set t" "(d, e) \<in> set s'"
    "''meta'' \<notin> fst ` set sp"
  shows "(d = ''meta'' \<and> (\<exists>nm. p = Text nm \<and> e = Meta (py_lower nm)))
         \<or> (d \<noteq> ''meta'' \<and> (\<exists>l. e = Repos l \<and> in_order l))"
proof -
  obtain src where src: "(p, src) \<in> set (aggregate sp [])" and f: "finalize_project p src = Inr s'"
    using finalize_mem [OF assms(1,2)] by blast
  have wf: "wf_sets (aggregate sp [])" using wf_sets_Nil by (rule wf_sets_aggregate)
  have keys: "''meta'' \<notin> fst ` set src" using aggregate_datasources [OF src] assms(4) by blast
  obtain s where s: "sort_datasources src = Inr s"
    and c: "(map_of s ''meta'' = None
               \<and> (\<exists>nm. p = Text nm \<and> s' = AList.update ''meta'' (Meta (py_lower nm)) s))
            \<or> (map_of s ''meta'' \<noteq> None \<and> s' = s)"
    using finalize_project_cases [OF f] by blast
  have keys_s: "''meta'' \<notin> fst ` set s"
    using sort_datasources_keys [OF s] keys by (metis set_map)
  then have "map_of s ''meta'' = None" by (simp add: map_of_eq_None_iff)
  then obtain nm where nm: "p = Text nm" "s' = AList.update ''meta'' (Meta (py_lower nm)) s"
    using c by blast
  have "(d = ''meta'' \<and> e = Meta (py_lower nm)) \<or> (d, e) \<in> set s"
    using assms(3) unfolding nm(2) by (rule in_update_cases)
  then show ?thesis
  proof
    assume "d = ''meta'' \<and> e = Meta (py_lower nm)"
    then show ?thesis using nm(1) by simp
  next
    assume m: "(d, e) \<in> set s"
    then have dm: "d \<noteq> ''meta''" using keys_s by force
    obtain repos l where r: "(d, repos) \<in> set src" "py_sorted repos = Inr l" "e = Repos l"
      using sort_datasources_mem [OF s m] by blast
    have "distinct repos" using wf src r(1) unfolding wf_sets_iff by blast
    then have "in_order l" using py_sorted_in_order [OF r(2)] by simp
    then show ?thesis using dm r(3) by simp
  qed
qed

lemma read_sheets_no_meta:
  assumes "read_sheets fr wb [] = Inr sp"
  shows "''meta'' \<notin> fst ` set sp"
proof -
  have "fst ` set sp \<subseteq> set datasources" using read_sheets_keys [OF assms] by simp
  moreover have "''meta'' \<notin> set datasources" by (simp add: datasources_def)
  ultimately show ?thesis by blast
qed

lemma finalized_distinct:
  assumes "finalize (aggregate sp []) = Inr t"
  shows "distinct (map fst t)"
proof -
  have "wf_sets (aggregate sp [])" using wf_sets_Nil by (rule wf_sets_aggregate)
  then show ?thesis using finalize_keys [OF assms] by (simp add: wf_sets_iff)
qed



lemma finalized_meta:
  assumes "finalize (aggregate sp []) = Inr t" "(p, s') \<in> set t" "''meta'' \<notin> fst ` set sp"
  shows "\<exists>nm. p = Text nm \<and> map_of s' ''meta'' = Some (Meta (py_lower nm))"
proof -
  obtain src where src: "(p, src) \<in> set (aggregate sp [])" and f: "finalize_project p src = Inr s'"
    using finalize_mem [OF assms(1,2)] by blast
  have keys: "''meta'' \<notin> fst ` set src" using aggregate_datasources [OF src] assms(3) by blast
  obtain s where s: "sort_datasources src = Inr s"
    and c: "(map_of s ''meta'' = None
               \<and> (\<exists>nm. p = Text nm \<and> s' = AList.update ''meta'' (Meta (py_lower nm)) s))
            \<or> (map_of s ''meta'' \<noteq> None \<and> s' = s)"
    using finalize_project_cases [OF f] by blast
  have "''meta'' \<notin> fst ` set s"
    using sort_datasources_keys [OF s] keys by (metis set_map)
  then have "map_of s ''meta'' = None" by (simp add: map_of_eq_None_iff)
  then obtain nm where nm: "p = Text nm" "s' = AList.update ''meta'' (Meta (py_lower nm)) s"
    using c by blast
  then show ?thesis by (simp add: update_conv')
qed

lemma unknown_sources_cases:
  assumes "tree = adhoc_tree t" "map_of tree (Text ''unknown'') = Some src"
    "(d, e) \<in> set src"
  shows "(\<exists>x. e = Repos [Text x])
       \<or> (\<exists>u. map_of t (Text ''unknown'') = Some u \<and> (d, e) \<in> set u)"
proof -
  define u0 where "u0 = (case map_of t (Text ''unknown'') of None \<Rightarrow> [] | Some u \<Rightarrow> u)"
  have "src = fold (\<lambda>(k, v). AList.update k v) adhoc_repositories u0"
    using assms(2) unfolding assms(1) map_of_add_adhoc u0_def by simp
  then have "(d, e) \<in> set (fold (\<lambda>(k, v). AList.update k v) adhoc_repositories u0)"
    using assms(3) by simp
  then have "(d, e) \<in> set adhoc_repositories \<or> (d, e) \<in> set u0"
    by (rule fold_update_mem)
  moreover have "\<exists>u. map_of t (Text ''unknown'') = Some u \<and> (d, e) \<in> set u" if "(d, e) \<in> set u0"
    using that unfolding u0_def by (cases "map_of t (Text ''unknown'')") simp_all
  ultimately show ?thesis using adhoc_in_order [of d e] by blast
qed

lemma adhoc_no_meta: "map_of (rev adhoc_repositories) ''meta'' = None"
  by (simp add: adhoc_repositories_def)

lemma in_order_single: "in_order [Text x]"
proof -
  have "[Text x] = map Text [x] \<and> sorted [x]" by simp
  then show ?thesis unfolding in_order_def by (metis distinct_singleton)
qed

section \<open>The dictionary written to the JSON file\<close>

text \<open>
  Claim C1, as the code has it. Every project object of the dictionary has
  \<^verbatim>\<open>meta\<close> equal to its lowercased name, but for one case: when no entry of
  the dictionaries stored in \<^verbatim>\<open>spreadsheet\<close> has the project \<^verbatim>\<open>unknown\<close>, the
  project \<^verbatim>\<open>unknown\<close> is made by \<^verbatim>\<open>add_adhoc_repositories\<close>, after the loop that
  sets \<^verbatim>\<open>meta\<close>, and has no \<^verbatim>\<open>meta\<close>. The condition is on the stored entries, not
  on the rows: a row that names \<^verbatim>\<open>unknown\<close> and is overwritten by a later row
  with the same repo leaves no entry.
\<close>

theorem meta_of_workbook_projects:
  assumes "main_projects fr wb = Inr tree" "read_sheets fr wb [] = Inr sp" "(p, src) \<in> set tree"
  shows "if p = Text ''unknown''
            \<and> (\<forall>d res r. (d, res) \<in> set sp \<longrightarrow> (r, Text ''unknown'') \<notin> set res)
         then map_of src ''meta'' = None
         else (\<exists>nm. p = Text nm \<and> map_of src ''meta'' = Some (Meta (py_lower nm)))"
proof -
  from assms(1) obtain sp' t where sp': "read_sheets fr wb [] = Inr sp'"
    and t': "finalize (aggregate sp' []) = Inr t" and tree': "tree = adhoc_tree t"
    by (rule main_projects_stages)
  have eq: "sp' = sp" using sp' assms(2) by simp
  note t = t' [unfolded eq] and tree = tree' [unfolded eq]
  have nometa: "''meta'' \<notin> fst ` set sp" using assms(2) by (rule read_sheets_no_meta)
  have cases: "(p = Text ''unknown'' \<and> map_of tree p = Some src) \<or> (p \<noteq> Text ''unknown'' \<and> (p, src) \<in> set t)"
    using finalized_distinct [OF t] assms(3) unfolding tree by (rule add_adhoc_mem)
  have absent: "map_of t (Text ''unknown'') = None
      \<longleftrightarrow> (\<forall>d res r. (d, res) \<in> set sp \<longrightarrow> (r, Text ''unknown'') \<notin> set res)"
  proof -
    have "map_of t (Text ''unknown'') = None \<longleftrightarrow> Text ''unknown'' \<notin> fst ` set (aggregate sp [])"
      using finalize_map_of_None [OF t] by (simp add: map_of_eq_None_iff)
    then show ?thesis unfolding keys_aggregate by auto
  qed
  show ?thesis
  proof (cases "p = Text ''unknown''")
    case False
    then have "(p, src) \<in> set t" using cases by simp
    then show ?thesis using finalized_meta [OF t _ nometa] False by simp
  next
    case True
    then have m: "map_of tree (Text ''unknown'') = Some src" using cases by blast
    define u0 where "u0 = (case map_of t (Text ''unknown'') of None \<Rightarrow> [] | Some u \<Rightarrow> u)"
    have "src = fold (\<lambda>(k, v). AList.update k v) adhoc_repositories u0"
      using m unfolding tree map_of_add_adhoc u0_def by simp
    then have src: "map_of src ''meta'' = map_of u0 ''meta''"
      by (simp add: map_of_fold_update adhoc_no_meta)
    show ?thesis
    proof (cases "map_of t (Text ''unknown'')")
      case None
      then have "map_of src ''meta'' = None" using src by (simp add: u0_def)
      moreover have "\<forall>d res r. (d, res) \<in> set sp \<longrightarrow> (r, Text ''unknown'') \<notin> set res"
        using None absent by simp
      ultimately show ?thesis using True by simp
    next
      case (Some u)
      then have "(Text ''unknown'', u) \<in> set t" by (rule map_of_SomeD)
      from finalized_meta [OF t this nometa]
      have "map_of u ''meta'' = Some (Meta (py_lower ''unknown''))" by simp
      then have "map_of src ''meta'' = Some (Meta (py_lower ''unknown''))"
        using src Some by (simp add: u0_def)
      moreover have "\<not> (\<forall>d res r. (d, res) \<in> set sp \<longrightarrow> (r, Text ''unknown'') \<notin> set res)"
        using Some absent by simp
      ultimately show ?thesis using True by simp
    qed
  qed
qed

lemma adhoc_tree_entries:
  "\<exists>unknown. map_of (adhoc_tree t) (Text ''unknown'') = Some unknown
     \<and> map_of unknown ''bugzillarest'' = Some (Repos [Text ''https://bugzilla.mozilla.org''])
     \<and> map_of unknown ''discourse'' = Some (Repos [Text ''https://discourse.mozilla.org/''])
     \<and> map_of unknown ''mediawiki'' = Some (Repos [Text ''https://wiki.mozilla.org''])
     \<and> map_of unknown ''mozillaclub'' = Some (Repos [Text ''https://spreadsheets.google.com/feeds/cells/1QHl2bjBhMslyFzR5XXPzMLdzzx7oeSKTbgR5PM8qp64/ohaibtm/public/values?alt=json''])
     \<and> map_of unknown ''remo'' = Some (Repos [Text ''https://reps.mozilla.org''])"
  by (simp add: map_of_add_adhoc adhoc_repositories_def update_conv')

text \<open>
  Claim C3. \<^verbatim>\<open>add_adhoc_repositories\<close> raises for no dictionary: it makes the
  project \<^verbatim>\<open>unknown\<close> when it is missing, and then assigns the five adhoc
  data sources, each a fixed one-element list, whatever the project held under
  these names. Without the first step the assignments raise \<^verbatim>\<open>KeyError\<close>.
  \<^verbatim>\<open>main\<close> hands to \<^verbatim>\<open>json.dump\<close> what \<^verbatim>\<open>add_adhoc_repositories\<close>
  returns, so every run that gets as far as the call has these five entries
  in its output.
\<close>

theorem unknown_adhoc_entries:
  "(\<exists>tree unknown. add_adhoc_repositories t sp = Inr tree
     \<and> map_of tree (Text ''unknown'') = Some unknown
     \<and> map_of unknown ''bugzillarest'' = Some (Repos [Text ''https://bugzilla.mozilla.org''])
     \<and> map_of unknown ''discourse'' = Some (Repos [Text ''https://discourse.mozilla.org/''])
     \<and> map_of unknown ''mediawiki'' = Some (Repos [Text ''https://wiki.mozilla.org''])
     \<and> map_of unknown ''mozillaclub'' = Some (Repos [Text ''https://spreadsheets.google.com/feeds/cells/1QHl2bjBhMslyFzR5XXPzMLdzzx7oeSKTbgR5PM8qp64/ohaibtm/public/values?alt=json''])
     \<and> map_of unknown ''remo'' = Some (Repos [Text ''https://reps.mozilla.org'']))
   \<and> (main_projects fr wb = Inr tree' \<longrightarrow>
        (\<exists>unknown. map_of tree' (Text ''unknown'') = Some unknown
     \<and> map_of unknown ''bugzillarest'' = Some (Repos [Text ''https://bugzilla.mozilla.org''])
     \<and> map_of unknown ''discourse'' = Some (Repos [Text ''https://discourse.mozilla.org/''])
     \<and> map_of unknown ''mediawiki'' = Some (Repos [Text ''https://wiki.mozilla.org''])
     \<and> map_of unknown ''mozillaclub'' = Some (Repos [Text ''https://spreadsheets.google.com/feeds/cells/1QHl2bjBhMslyFzR5XXPzMLdzzx7oeSKTbgR5PM8qp64/ohaibtm/public/values?alt=json''])
     \<and> map_of unknown ''remo'' = Some (Repos [Text ''https://reps.mozilla.org''])))
   \<and> (map_of t (Text ''unknown'') = None \<longrightarrow> set_unknown k v t = Inl KeyError)
   \<and> (main_projects fr wb = Inr tree' \<longleftrightarrow>
        (\<exists>spreadsheet projects. read_sheets fr wb [] = Inr spreadsheet
           \<and> finalize (aggregate spreadsheet []) = Inr projects
           \<and> add_adhoc_repositories projects spreadsheet = Inr tree'))"
proof (intro conjI impI)
  show "\<exists>tree unknown. add_adhoc_repositories t sp = Inr tree
     \<and> map_of tree (Text ''unknown'') = Some unknown
     \<and> map_of unknown ''bugzillarest'' = Some (Repos [Text ''https://bugzilla.mozilla.org''])
     \<and> map_of unknown ''discourse'' = Some (Repos [Text ''https://discourse.mozilla.org/''])
     \<and> map_of unknown ''mediawiki'' = Some (Repos [Text ''https://wiki.mozilla.org''])
     \<and> map_of unknown ''mozillaclub'' = Some (Repos [Text ''https://spreadsheets.google.com/feeds/cells/1QHl2bjBhMslyFzR5XXPzMLdzzx7oeSKTbgR5PM8qp64/ohaibtm/public/values?alt=json''])
     \<and> map_of unknown ''remo'' = Some (Repos [Text ''https://reps.mozilla.org''])"
    using adhoc_tree_entries [of t] add_adhoc_fold [of t sp] by blast
next
  assume "main_projects fr wb = Inr tree'"
  then obtain sp t where "tree' = adhoc_tree t" by (rule main_projects_stages)
  then show "\<exists>unknown. map_of tree' (Text ''unknown'') = Some unknown
     \<and> map_of unknown ''bugzillarest'' = Some (Repos [Text ''https://bugzilla.mozilla.org''])
     \<and> map_of unknown ''discourse'' = Some (Repos [Text ''https://discourse.mozilla.org/''])
     \<and> map_of unknown ''mediawiki'' = Some (Repos [Text ''https://wiki.mozilla.org''])
     \<and> map_of unknown ''mozillaclub'' = Some (Repos [Text ''https://spreadsheets.google.com/feeds/cells/1QHl2bjBhMslyFzR5XXPzMLdzzx7oeSKTbgR5PM8qp64/ohaibtm/public/values?alt=json''])
     \<and> map_of unknown ''remo'' = Some (Repos [Text ''https://reps.mozilla.org''])"
    using adhoc_tree_entries [of t] by simp
next
  assume "map_of t (Text ''unknown'') = None"
  then show "set_unknown k v t = Inl KeyError" by (simp add: set_unknown_def)
next
  show "main_projects fr wb = Inr tree' \<longleftrightarrow>
        (\<exists>spreadsheet projects. read_sheets fr wb [] = Inr spreadsheet
           \<and> finalize (aggregate spreadsheet []) = Inr projects
           \<and> add_adhoc_repositories projects spreadsheet = Inr tree')"
    by (auto simp: main_projects_def split: sum.splits)
qed

text \<open>
  Claim C1 on a workbook whose first row names \<^verbatim>\<open>unknown\<close> and whose second row
  gives the same repo to \<^verbatim>\<open>Mozilla\<close>: the stored dictionaries have no entry for
  \<^verbatim>\<open>unknown\<close>, the project \<^verbatim>\<open>Mozilla\<close> has its \<^verbatim>\<open>meta\<close> and the project
  \<^verbatim>\<open>unknown\<close> has none.
\<close>

theorem meta_of_workbook_projects_witness:
  "read_sheets (\<lambda>q. [])
      [\<lparr>name = ''Github'', grid = [[Text ''repo'', Text ''project''],
         [Text ''r'', Text ''unknown''], [Text ''r'', Text ''Mozilla'']]\<rparr>] []
     = Inr [(''github'', [(Text ''r'', Text ''Mozilla'')]),
            (''git'', [(Text ''r.git'', Text ''Mozilla'')])]
   \<and> main_projects (\<lambda>q. [])
      [\<lparr>name = ''Github'', grid = [[Text ''repo'', Text ''project''],
         [Text ''r'', Text ''unknown''], [Text ''r'', Text ''Mozilla'']]\<rparr>]
     = Inr [(Text ''Mozilla'',
              [(''github'', Repos [Text ''r'']), (''git'', Repos [Text ''r.git'']),
               (''meta'', Meta ''mozilla'')]),
            (Text ''unknown'', adhoc_repositories)]
   \<and> map_of [(''github'', Repos [Text ''r'']), (''git'', Repos [Text ''r.git'']),
               (''meta'', Meta ''mozilla'')] ''meta'' = Some (Meta (py_lower ''Mozilla''))
   \<and> map_of adhoc_repositories ''meta'' = None"
proof -
  let ?wb = "[\<lparr>name = ''Github'', grid = [[Text ''repo'', Text ''project''],
         [Text ''r'', Text ''unknown''], [Text ''r'', Text ''Mozilla'']]\<rparr>]"
  let ?sp = "[(''github'', [(Text ''r'', Text ''Mozilla'')]),
            (''git'', [(Text ''r.git'', Text ''Mozilla'')])]"
  let ?src = "[(''github'', Repos [Text ''r'']), (''git'', Repos [Text ''r.git'']),
               (''meta'', Meta ''mozilla'')]"
  let ?tree = "[(Text ''Mozilla'', ?src), (Text ''unknown'', adhoc_repositories)]"
  have sp: "read_sheets (\<lambda>q. []) ?wb [] = Inr ?sp" by code_simp
  have run: "main_projects (\<lambda>q. []) ?wb = Inr ?tree" by code_simp
  have p: "(Text ''Mozilla'', ?src) \<in> set ?tree" by simp
  have u: "(Text ''unknown'', adhoc_repositories) \<in> set ?tree" by simp
  have no: "\<forall>d res r. (d, res) \<in> set ?sp \<longrightarrow> (r, Text ''unknown'') \<notin> set res" by auto
  from meta_of_workbook_projects [OF run sp p]
  have "\<exists>nm. Text ''Mozilla'' = Text nm \<and> map_of ?src ''meta'' = Some (Meta (py_lower nm))"
    by simp
  then have 1: "map_of ?src ''meta'' = Some (Meta (py_lower ''Mozilla''))" by simp
  have 2: "map_of adhoc_repositories ''meta'' = None"
    using meta_of_workbook_projects [OF run sp u] no by (simp only: simp_thms if_True)
  show ?thesis using sp run 1 2 by (intro conjI)
qed

text \<open>
  The claim as the specification states it fails on the same workbook: the
  project \<^verbatim>\<open>unknown\<close> of the output has the five adhoc entries and no
  \<^verbatim>\<open>meta\<close>.
\<close>

theorem unknown_project_without_meta:
  "main_projects (\<lambda>q. [])
      [\<lparr>name = ''Github'', grid = [[Text ''repo'', Text ''project''],
         [Text ''https://github.com/mozilla/gecko'', Text ''Mozilla'']]\<rparr>]
     = Inr [(Text ''Mozilla'',
              [(''github'', Repos [Text ''https://github.com/mozilla/gecko'']),
               (''git'', Repos [Text ''https://github.com/mozilla/gecko.git'']),
               (''meta'', Meta ''mozilla'')]),
            (Text ''unknown'',
              [(''bugzillarest'', Repos [Text ''https://bugzilla.mozilla.org'']),
               (''discourse'', Repos [Text ''https://discourse.mozilla.org/'']),
               (''mediawiki'', Repos [Text ''https://wiki.mozilla.org'']),
               (''mozillaclub'', Repos [Text ''https://spreadsheets.google.com/feeds/cells/1QHl2bjBhMslyFzR5XXPzMLdzzx7oeSKTbgR5PM8qp64/ohaibtm/public/values?alt=json'']),
               (''remo'', Repos [Text ''https://reps.mozilla.org''])])]
   \<and> map_of [(''bugzillarest'', Repos [Text ''https://bugzilla.mozilla.org'']),
               (''discourse'', Repos [Text ''https://discourse.mozilla.org/'']),
               (''mediawiki'', Repos [Text ''https://wiki.mozilla.org'']),
               (''mozillaclub'', Repos [Text ''https://spreadsheets.google.com/feeds/cells/1QHl2bjBhMslyFzR5XXPzMLdzzx7oeSKTbgR5PM8qp64/ohaibtm/public/values?alt=json'']),
               (''remo'', Repos [Text ''https://reps.mozilla.org''])] ''meta'' = None"
  by code_simp

text \<open>
  Claim C3 on the empty dictionary, where \<^verbatim>\<open>unknown\<close> is made, and on a
  workbook that files a Discourse category under \<^verbatim>\<open>unknown\<close>: the adhoc list
  replaces it.
\<close>

theorem unknown_adhoc_entries_witness:
  "add_adhoc_repositories [] [] = Inr [(Text ''unknown'', adhoc_repositories)]
   \<and> set_unknown ''remo'' (Repos [Text ''https://reps.mozilla.org'']) [] = Inl KeyError
   \<and> (\<exists>unknown. map_of [(Text ''unknown'', adhoc_repositories)] (Text ''unknown'') = Some unknown
         \<and> map_of unknown ''bugzillarest'' = Some (Repos [Text ''https://bugzilla.mozilla.org''])
         \<and> map_of unknown ''remo'' = Some (Repos [Text ''https://reps.mozilla.org'']))
   \<and> read_sheets (\<lambda>q. [])
      [\<lparr>name = ''Discourse'', grid = [[Text ''name'', Text ''category'', Text ''project''],
         [Text ''Add-ons'', Number 42, Text ''unknown'']]\<rparr>] []
     = Inr [(''discourse'', [(Text ''42'', Text ''unknown'')])]
   \<and> main_projects (\<lambda>q. [])
      [\<lparr>name = ''Discourse'', grid = [[Text ''name'', Text ''category'', Text ''project''],
         [Text ''Add-ons'', Number 42, Text ''unknown'']]\<rparr>]
     = Inr [(Text ''unknown'',
              [(''discourse'', Repos [Text ''https://discourse.mozilla.org/'']),
               (''meta'', Meta ''unknown''),
               (''bugzillarest'', Repos [Text ''https://bugzilla.mozilla.org'']),
               (''mediawiki'', Repos [Text ''https://wiki.mozilla.org'']),
               (''mozillaclub'', Repos [Text ''https://spreadsheets.google.com/feeds/cells/1QHl2bjBhMslyFzR5XXPzMLdzzx7oeSKTbgR5PM8qp64/ohaibtm/public/values?alt=json'']),
               (''remo'', Repos [Text ''https://reps.mozilla.org''])])]
   \<and> (\<exists>unknown. map_of [(Text ''unknown'',
              [(''discourse'', Repos [Text ''https://discourse.mozilla.org/'']),
               (''meta'', Meta ''unknown''),
               (''bugzillarest'', Repos [Text ''https://bugzilla.mozilla.org'']),
               (''mediawiki'', Repos [Text ''https://wiki.mozilla.org'']),
               (''mozillaclub'', Repos [Text ''https://spreadsheets.google.com/feeds/cells/1QHl2bjBhMslyFzR5XXPzMLdzzx7oeSKTbgR5PM8qp64/ohaibtm/public/values?alt=json'']),
               (''remo'', Repos [Text ''https://reps.mozilla.org''])])] (Text ''unknown'') = Some unknown
         \<and> map_of unknown ''discourse'' = Some (Repos [Text ''https://discourse.mozilla.org/'']))"
proof -
  let ?wb = "[\<lparr>name = ''Discourse'', grid = [[Text ''name'', Text ''category'', Text ''project''],
         [Text ''Add-ons'', Number 42, Text ''unknown'']]\<rparr>]"
  let ?tree = "[(Text ''unknown'',
              [(''discourse'', Repos [Text ''https://discourse.mozilla.org/'']),
               (''meta'', Meta ''unknown''),
               (''bugzillarest'', Repos [Text ''https://bugzilla.mozilla.org'']),
               (''mediawiki'', Repos [Text ''https://wiki.mozilla.org'']),
               (''mozillaclub'', Repos [Text ''https://spreadsheets.google.com/feeds/cells/1QHl2bjBhMslyFzR5XXPzMLdzzx7oeSKTbgR5PM8qp64/ohaibtm/public/values?alt=json'']),
               (''remo'', Repos [Text ''https://reps.mozilla.org''])])]"
  note inst = unknown_adhoc_entries [of "[]" "[]" "\<lambda>q. []" ?wb ?tree
      "''remo''" "Repos [Text ''https://reps.mozilla.org'']"]
  have a: "add_adhoc_repositories [] [] = Inr [(Text ''unknown'', adhoc_repositories)]"
    by code_simp
  have n: "map_of ([] :: project_tree) (Text ''unknown'') = None" by simp
  have sp: "read_sheets (\<lambda>q. []) ?wb [] = Inr [(''discourse'', [(Text ''42'', Text ''unknown'')])]"
    by code_simp
  have run: "main_projects (\<lambda>q. []) ?wb = Inr ?tree" by code_simp
  from inst [THEN conjunct1] obtain tree unknown where
    "add_adhoc_repositories [] [] = Inr tree" "map_of tree (Text ''unknown'') = Some unknown"
    "map_of unknown ''bugzillarest'' = Some (Repos [Text ''https://bugzilla.mozilla.org''])"
    "map_of unknown ''remo'' = Some (Repos [Text ''https://reps.mozilla.org''])"
    by blast
  moreover from this(1) a have "tree = [(Text ''unknown'', adhoc_repositories)]" by simp
  ultimately have 1: "\<exists>unknown. map_of [(Text ''unknown'', adhoc_repositories)] (Text ''unknown'') = Some unknown
         \<and> map_of unknown ''bugzillarest'' = Some (Repos [Text ''https://bugzilla.mozilla.org''])
         \<and> map_of unknown ''remo'' = Some (Repos [Text ''https://reps.mozilla.org''])"
    by blast
  from inst [THEN conjunct2, THEN conjunct2, THEN conjunct1] n
  have 2: "set_unknown ''remo'' (Repos [Text ''https://reps.mozilla.org'']) [] = Inl KeyError"
    by (rule mp)
  from inst [THEN conjunct2, THEN conjunct1] run
  have "\<exists>unknown. map_of ?tree (Text ''unknown'') = Some unknown
     \<and> map_of unknown ''bugzillarest'' = Some (Repos [Text ''https://bugzilla.mozilla.org''])
     \<and> map_of unknown ''discourse'' = Some (Repos [Text ''https://discourse.mozilla.org/''])
     \<and> map_of unknown ''mediawiki'' = Some (Repos [Text ''https://wiki.mozilla.org''])
     \<and> map_of unknown ''mozillaclub'' = Some (Repos [Text ''https://spreadsheets.google.com/feeds/cells/1QHl2bjBhMslyFzR5XXPzMLdzzx7oeSKTbgR5PM8qp64/ohaibtm/public/values?alt=json''])
     \<and> map_of unknown ''remo'' = Some (Repos [Text ''https://reps.mozilla.org''])"
    by (rule mp)
  then have 3: "\<exists>unknown. map_of ?tree (Text ''unknown'') = Some unknown
         \<and> map_of unknown ''discourse'' = Some (Repos [Text ''https://discourse.mozilla.org/''])"
    by blast
  show ?thesis using a 1 2 sp run 3 by (intro conjI)
qed

section \<open>From a row to the dictionary\<close>


lemma get_repos_distinct:
  assumes "get_repos fr k sh = Inr res"
  shows "distinct (map fst res)"
proof -
  obtain es where "res = fold (\<lambda>(repo, project). AList.update repo project) es []"
    using assms unfolding get_repos_def by (blast dest: get_repos_rows_entries)
  then show ?thesis by (simp add: distinct_fold_update)
qed

lemma get_repos_row_ok:
  assumes "get_repos fr k sh = Inr res" "0 < row" "row < nrows sh"
  shows "\<exists>key p. row_entry fr k sh row = Inr (key, p) \<and> key \<in> fst ` set res"
proof -
  obtain es where es: "map (row_entry fr k sh) [1..<nrows sh] = map Inr es"
    and res: "res = fold (\<lambda>(repo, project). AList.update repo project) es []"
    using assms(1) unfolding get_repos_def by (blast dest: get_repos_rows_entries)
  have i: "row - 1 < length [1..<nrows sh]" and r: "[1..<nrows sh] ! (row - 1) = row"
    using assms(2,3) by simp_all
  have "row - 1 < length es \<and> row_entry fr k sh ([1..<nrows sh] ! (row - 1)) = Inr (es ! (row - 1))"
    using es i by (rule map_Inr_nth)
  then have m: "es ! (row - 1) \<in> set es"
    and e: "row_entry fr k sh row = Inr (fst (es ! (row - 1)), snd (es ! (row - 1)))"
    unfolding r by simp_all
  have "fst (es ! (row - 1)) \<in> fst ` set res"
    unfolding res keys_fold_update using m by simp
  then show ?thesis using e by blast
qed

lemma get_repos_last_entry:
  assumes "get_repos fr k sh = Inr res" "0 < j" "j < nrows sh"
    and "row_entry fr k sh j = Inr (key, p)"
    and "\<And>j'. j < j' \<Longrightarrow> j' < nrows sh \<Longrightarrow> \<forall>p'. row_entry fr k sh j' \<noteq> Inr (key, p')"
  shows "map_of res key = Some p"
proof -
  obtain es where es: "map (row_entry fr k sh) [1..<nrows sh] = map Inr es"
    and res: "res = fold (\<lambda>(repo, project). AList.update repo project) es []"
    using assms(1) unfolding get_repos_def by (blast dest: get_repos_rows_entries)
  have len: "length es = nrows sh - 1" using arg_cong [OF es, of length] by simp
  have nth: "row_entry fr k sh (Suc i) = Inr (es ! i)" if "i < nrows sh - 1" for i
  proof -
    have "i < length [1..<nrows sh]" using that by simp
    with es have "row_entry fr k sh ([1..<nrows sh] ! i) = Inr (es ! i)"
      using map_Inr_nth by blast
    then show ?thesis using that by simp
  qed
  have i: "j - 1 < length es" using assms(2,3) len by simp
  have "row_entry fr k sh (Suc (j - 1)) = Inr (es ! (j - 1))"
    using nth [of "j - 1"] assms(2,3) by simp
  then have at: "es ! (j - 1) = (key, p)" using assms(2,4) by simp
  have later: "fst (es ! i') \<noteq> key" if "j - 1 < i'" "i' < length es" for i'
  proof
    assume k: "fst (es ! i') = key"
    have "row_entry fr k sh (Suc i') = Inr (es ! i')" using nth [of i'] that len by simp
    then have "row_entry fr k sh (Suc i') = Inr (key, snd (es ! i'))"
      using k prod.collapse [of "es ! i'"] by simp
    moreover have "j < Suc i'" "Suc i' < nrows sh" using that len by simp_all
    ultimately show False using assms(5) [of "Suc i'"] by simp
  qed
  have "map_of (rev es) key = Some p" using i at later by (rule map_of_rev_last)
  then show ?thesis by (simp add: res map_of_fold_update)
qed

lemma sheet_table_inj:
  "sheet_table n = Some (k, d) \<Longrightarrow> sheet_table n' = Some (k', d) \<Longrightarrow> n' = n"
  by (auto simp: sheet_table_def split: if_splits)

lemma read_sheet_other:
  assumes "read_sheet fr sh' sp = Inr sp'" "name sh' \<noteq> n" "sheet_table n = Some (k, d)"
  shows "map_of sp' d = map_of sp d"
  using assms(1)
proof (cases rule: read_sheet_cases)
  case skip
  then show ?thesis by simp
next
  case (github res git)
  have "d \<noteq> ''git''" using sheet_table_datasource [OF assms(3)] by simp
  moreover have "d \<noteq> ''github''"
    using sheet_table_inj [OF assms(3), of "name sh'" GitHubSheet] github(1) assms(2) by auto
  ultimately show ?thesis using github(4) by (simp add: update_conv')
next
  case (other k' d' res)
  have "d \<noteq> d'" using sheet_table_inj [OF assms(3), of "name sh'" k'] other(1) assms(2) by auto
  then show ?thesis using other(4) by (simp add: update_conv')
qed

lemma read_sheets_other:
  assumes "read_sheets fr wb sp = Inr sp'" "n \<notin> name ` set wb" "sheet_table n = Some (k, d)"
  shows "map_of sp' d = map_of sp d"
  using assms(1,2)
proof (induction wb arbitrary: sp)
  case Nil
  then show ?case by simp
next
  case (Cons sh wb)
  from Cons.prems(1) obtain sp1 where 1: "read_sheet fr sh sp = Inr sp1"
    and 2: "read_sheets fr wb sp1 = Inr sp'"
    by (auto split: sum.splits)
  have "name sh \<noteq> n" "n \<notin> name ` set wb" using Cons.prems(2) by auto
  then show ?case using read_sheet_other [OF 1 _ assms(3)] Cons.IH [OF 2] by simp
qed

lemma read_sheet_stored:
  assumes "read_sheet fr sh sp = Inr sp'" "sheet_table (name sh) = Some (k, d)"
  shows "\<exists>res. get_repos fr k sh = Inr res \<and> map_of sp' d = Some res"
  using assms(1)
proof (cases rule: read_sheet_cases)
  case skip
  then show ?thesis using assms(2) by simp
next
  case (github res git)
  then show ?thesis using assms(2) by (simp add: update_conv')
next
  case (other k' d' res)
  then show ?thesis using assms(2) by (simp add: update_conv')
qed

lemma read_sheets_stored:
  assumes "read_sheets fr wb sp = Inr sp'" "sh \<in> set wb" "distinct (map name wb)"
    "sheet_table (name sh) = Some (k, d)"
  shows "\<exists>res. get_repos fr k sh = Inr res \<and> map_of sp' d = Some res"
  using assms(1,2,3)
proof (induction wb arbitrary: sp)
  case Nil
  then show ?case by simp
next
  case (Cons sh0 wb)
  from Cons.prems(1) obtain sp1 where 1: "read_sheet fr sh0 sp = Inr sp1"
    and 2: "read_sheets fr wb sp1 = Inr sp'"
    by (auto split: sum.splits)
  show ?case
  proof (cases "sh = sh0")
    case True
    then obtain res where res: "get_repos fr k sh = Inr res" "map_of sp1 d = Some res"
      using read_sheet_stored [OF 1] assms(4) by auto
    have "name sh \<notin> name ` set wb" using Cons.prems(3) True by simp
    with 2 have "map_of sp' d = map_of sp1 d" using assms(4) by (rule read_sheets_other)
    then show ?thesis using res by simp
  next
    case False
    then have "sh \<in> set wb" "distinct (map name wb)" using Cons.prems(2,3) by simp_all
    then show ?thesis using Cons.IH [OF 2] by simp
  qed
qed

lemma read_sheets_ok:
  assumes "read_sheets fr wb sp = Inr sp'" "sh \<in> set wb" "sheet_table (name sh) = Some (k, d)"
  shows "\<exists>res. get_repos fr k sh = Inr res"
  using assms(1,2)
proof (induction wb arbitrary: sp)
  case Nil
  then show ?case by simp
next
  case (Cons sh0 wb)
  from Cons.prems(1) obtain sp1 where 1: "read_sheet fr sh0 sp = Inr sp1"
    and 2: "read_sheets fr wb sp1 = Inr sp'"
    by (auto split: sum.splits)
  show ?case
  proof (cases "sh = sh0")
    case True
    then show ?thesis using read_sheet_stored [OF 1] assms(3) by auto
  next
    case False
    then have "sh \<in> set wb" using Cons.prems(2) by simp
    then show ?thesis using Cons.IH [OF 2] by simp
  qed
qed



lemma repos_of_SomeD:
  assumes "r \<in> repos_of ps p d"
  obtains src repos where "map_of ps p = Some src" "map_of src d = Some repos" "r \<in> set repos"
  using assms unfolding repos_of_def by (auto split: option.splits)

lemma adhoc_lookup_other:
  assumes "d \<in> set datasources" "d \<noteq> ''discourse''"
  shows "map_of (rev adhoc_repositories) d = None"
  using assms by (auto simp: datasources_def adhoc_repositories_def)

lemma filed:
  assumes run: "main_projects fr wb = Inr tree" and sp: "read_sheets fr wb [] = Inr sp"
    and res: "map_of sp d = Some res" and rp: "map_of res r = Some p"
    and nd: "p \<noteq> Text ''unknown'' \<or> d \<noteq> ''discourse''"
  shows "\<exists>src l. map_of tree p = Some src \<and> map_of src d = Some (Repos l) \<and> r \<in> set l"
proof -
  from run obtain sp' t where sp': "read_sheets fr wb [] = Inr sp'"
    and t': "finalize (aggregate sp' []) = Inr t" and tree': "tree = adhoc_tree t"
    by (rule main_projects_stages)
  have eq: "sp' = sp" using sp' sp by simp
  note t = t' [unfolded eq] and tree = tree' [unfolded eq]
  have dsp: "(d, res) \<in> set sp" using res by (rule map_of_SomeD)
  have "(r, p) \<in> set res" using rp by (rule map_of_SomeD)
  then have "r \<in> repos_of (aggregate sp []) p d"
    unfolding repos_of_aggregate using dsp by blast
  then obtain src0 repos where src0: "map_of (aggregate sp []) p = Some src0"
    and repos: "map_of src0 d = Some repos" and r: "r \<in> set repos"
    by (rule repos_of_SomeD)
  have wf: "wf_sets (aggregate sp [])" using wf_sets_Nil by (rule wf_sets_aggregate)
  have "(p, src0) \<in> set (aggregate sp [])" using src0 by (rule map_of_SomeD)
  moreover have "(d, repos) \<in> set src0" using repos by (rule map_of_SomeD)
  ultimately have dr: "distinct repos" using wf unfolding wf_sets_iff by blast
  obtain s' where s': "map_of t p = Some s'" and f: "finalize_project p src0 = Inr s'"
    using finalize_map_of [OF t src0] by blast
  obtain s where s: "sort_datasources src0 = Inr s"
    and c: "(map_of s ''meta'' = None
               \<and> (\<exists>nm. p = Text nm \<and> s' = AList.update ''meta'' (Meta (py_lower nm)) s))
            \<or> (map_of s ''meta'' \<noteq> None \<and> s' = s)"
    using finalize_project_cases [OF f] by blast
  obtain l where l: "py_sorted repos = Inr l" "map_of s d = Some (Repos l)"
    using sort_datasources_map_of [OF s repos] by blast
  have rl: "r \<in> set l" using py_sorted_in_order [OF l(1) dr] r by simp
  have dm: "d \<noteq> ''meta''" using read_sheets_no_meta [OF sp] dsp by force
  have s'd: "map_of s' d = Some (Repos l)" using c l(2) dm by (auto simp: update_conv')
  show ?thesis
  proof (cases "p = Text ''unknown''")
    case False
    then have "map_of tree p = Some s'" using s' by (simp add: tree map_of_add_adhoc)
    then show ?thesis using s'd rl by blast
  next
    case True
    then have "d \<noteq> ''discourse''" using nd by simp
    moreover have "d \<in> set datasources" using read_sheets_keys [OF sp] dsp by force
    ultimately have no: "map_of (rev adhoc_repositories) d = None" by (rule adhoc_lookup_other [rotated])
    have "map_of tree p = Some (fold (\<lambda>(k, v). AList.update k v) adhoc_repositories s')"
      using True s' by (simp add: tree map_of_add_adhoc)
    moreover have "map_of (fold (\<lambda>(k, v). AList.update k v) adhoc_repositories s') d = Some (Repos l)"
      using no s'd by (simp add: map_of_fold_update)
    ultimately show ?thesis using rl by blast
  qed
qed

lemma fold_update_fresh:
  "distinct (map fst es) \<Longrightarrow> fst ` set es \<inter> fst ` set acc = {} \<Longrightarrow>
     fold (\<lambda>(k, v). AList.update k v) es acc = acc @ es"
proof (induction es arbitrary: acc)
  case Nil
  then show ?case by simp
next
  case (Cons e es)
  obtain k v where e: "e = (k, v)" by (cases e)
  have k: "k \<notin> fst ` set acc" using Cons.prems(2) e by auto
  then have u: "AList.update k v acc = acc @ [(k, v)]" by (rule update_absent)
  have "distinct (map fst es)" using Cons.prems(1) by simp
  moreover have "fst ` set es \<inter> fst ` set (acc @ [(k, v)]) = {}"
    using Cons.prems e by auto
  ultimately have "fold (\<lambda>(k, v). AList.update k v) es (acc @ [(k, v)]) = (acc @ [(k, v)]) @ es"
    by (rule Cons.IH)
  then show ?case using u e by simp
qed

lemma git_repos_fold:
  "git_repos gh acc = Inr git \<Longrightarrow>
     list_all (\<lambda>(repo, project). is_Text repo) gh
     \<and> git = fold (\<lambda>(k, v). AList.update k v)
               (map (\<lambda>(repo, project). (Text (text_of repo @ ''.git''), project)) gh) acc"
proof (induction gh acc rule: git_repos.induct)
  case (1 git)
  then show ?case by simp
next
  case (2 repo project rest git)
  then show ?case by simp
next
  case (3 q project rest git)
  then show ?case by simp
qed

lemma git_repos_image:
  assumes "git_repos gh [] = Inr git" "distinct (map fst gh)"
  shows "list_all (\<lambda>(repo, project). is_Text repo) gh
     \<and> git = map (\<lambda>(repo, project). (Text (text_of repo @ ''.git''), project)) gh"
proof -
  let ?f = "\<lambda>(repo, project). (Text (text_of repo @ ''.git''), project)"
  have t: "list_all (\<lambda>(repo, project). is_Text repo) gh"
    and g: "git = fold (\<lambda>(k, v). AList.update k v) (map ?f gh) []"
    using git_repos_fold [OF assms(1)] by simp_all
  have eq: "map fst (map ?f gh) = map (\<lambda>k. Text (text_of k @ ''.git'')) (map fst gh)"
    by (simp add: case_prod_beta)
  have "inj_on (\<lambda>k. Text (text_of k @ ''.git'')) (set (map fst gh))"
  proof (rule inj_onI)
    fix x y assume x: "x \<in> set (map fst gh)" and y: "y \<in> set (map fst gh)"
      and e: "Text (text_of x @ ''.git'') = Text (text_of y @ ''.git'')"
    have "is_Text x" "is_Text y" using t x y by (auto simp: list_all_iff)
    then obtain a b where "x = Text a" "y = Text b" by (cases x; cases y) simp_all
    then show "x = y" using e by simp
  qed
  then have "distinct (map (\<lambda>k. Text (text_of k @ ''.git'')) (map fst gh))"
    using assms(2) unfolding distinct_map [of _ "map fst gh"] by simp
  then have "distinct (map fst (map ?f gh))" unfolding eq .
  then have "fold (\<lambda>(k, v). AList.update k v) (map ?f gh) [] = [] @ map ?f gh"
    by (rule fold_update_fresh) simp
  then show ?thesis using t g by simp
qed

lemma read_sheets_git:
  assumes "read_sheets fr wb sp = Inr sp'"
    and "\<And>gh. map_of sp ''github'' = Some gh \<Longrightarrow>
           distinct (map fst gh) \<and> (\<exists>git. git_repos gh [] = Inr git \<and> map_of sp ''git'' = Some git)"
    and "map_of sp' ''github'' = Some gh"
  shows "distinct (map fst gh) \<and> (\<exists>git. git_repos gh [] = Inr git \<and> map_of sp' ''git'' = Some git)"
  using assms
proof (induction wb arbitrary: sp)
  case Nil
  then show ?case by simp
next
  case (Cons sh wb)
  from Cons.prems(1) obtain sp1 where 1: "read_sheet fr sh sp = Inr sp1"
    and 2: "read_sheets fr wb sp1 = Inr sp'"
    by (auto split: sum.splits)
  have inv: "distinct (map fst g) \<and> (\<exists>git. git_repos g [] = Inr git \<and> map_of sp1 ''git'' = Some git)"
    if g: "map_of sp1 ''github'' = Some g" for g
    using 1
  proof (cases rule: read_sheet_cases)
    case skip
    then show ?thesis using Cons.prems(2) g by simp
  next
    case (github res git)
    then have "g = res" using g by (simp add: update_conv')
    then show ?thesis using github get_repos_distinct [of fr GitHubSheet sh res]
      by (simp add: update_conv')
  next
    case (other k d res)
    have "d \<noteq> ''git''" "d \<noteq> ''github''"
      using sheet_table_datasource [OF other(1)] other(2) by simp_all
    then have "map_of sp1 ''github'' = map_of sp ''github''" "map_of sp1 ''git'' = map_of sp ''git''"
      using other(4) by (simp_all add: update_conv')
    then show ?thesis using Cons.prems(2) g by simp
  qed
  show ?case using 2 inv Cons.prems(3) by (rule Cons.IH)
qed



section \<open>Where a stored repo comes from\<close>

lemma get_repos_origin:
  assumes "get_repos fr k sh = Inr res" "(key, p) \<in> set res"
  shows "\<exists>row. 0 < row \<and> row < nrows sh \<and> row_entry fr k sh row = Inr (key, p)"
proof -
  obtain es where es: "map (row_entry fr k sh) [1..<nrows sh] = map Inr es"
    and res: "res = fold (\<lambda>(repo, project). AList.update repo project) es []"
    using assms(1) unfolding get_repos_def by (blast dest: get_repos_rows_entries)
  have "(key, p) \<in> set es \<or> (key, p) \<in> set []"
    using assms(2) unfolding res by (rule fold_update_mem)
  then have "(key, p) \<in> set es" by simp
  then have "\<exists>row\<in>set [1..<nrows sh]. row_entry fr k sh row = Inr (key, p)"
    using map_Inr_mem [OF es, of "(key, p)"] by simp
  then obtain row where r: "row \<in> set [1..<nrows sh]" "row_entry fr k sh row = Inr (key, p)"
    by blast
  have "0 < row \<and> row < nrows sh" using r(1) by simp
  then show ?thesis using r(2) by blast
qed

lemma read_sheet_origin:
  assumes "read_sheet fr sh sp = Inr sp'" "(d, res) \<in> set sp'"
  shows "(d, res) \<in> set sp
       \<or> (\<exists>k. sheet_table (name sh) = Some (k, d) \<and> get_repos fr k sh = Inr res
             \<and> (k = GitHubSheet \<longrightarrow> (\<exists>git. git_repos res [] = Inr git)))
       \<or> (d = ''git'' \<and> sheet_table (name sh) = Some (GitHubSheet, ''github'')
            \<and> (\<exists>gh. get_repos fr GitHubSheet sh = Inr gh \<and> git_repos gh [] = Inr res))"
  using assms(1)
proof (cases rule: read_sheet_cases)
  case skip
  then show ?thesis using assms(2) by simp
next
  case (github gh git)
  have "(d = ''git'' \<and> res = git) \<or> (d, res) \<in> set (AList.update ''github'' gh sp)"
    using assms(2) unfolding github(4) by (rule in_update_cases)
  then show ?thesis
  proof
    assume "d = ''git'' \<and> res = git"
    then show ?thesis using github by simp
  next
    assume "(d, res) \<in> set (AList.update ''github'' gh sp)"
    then have "(d = ''github'' \<and> res = gh) \<or> (d, res) \<in> set sp" by (rule in_update_cases)
    then show ?thesis using github by auto
  qed
next
  case (other k d' r)
  have "(d = d' \<and> res = r) \<or> (d, res) \<in> set sp"
    using assms(2) unfolding other(4) by (rule in_update_cases)
  then show ?thesis using other by auto
qed

lemma read_sheets_origin:
  assumes "read_sheets fr wb sp = Inr sp'" "(d, res) \<in> set sp'"
  shows "(d, res) \<in> set sp
       \<or> (\<exists>sh\<in>set wb. \<exists>k. sheet_table (name sh) = Some (k, d) \<and> get_repos fr k sh = Inr res
             \<and> (k = GitHubSheet \<longrightarrow> (\<exists>git. git_repos res [] = Inr git)))
       \<or> (d = ''git'' \<and> (\<exists>sh\<in>set wb. sheet_table (name sh) = Some (GitHubSheet, ''github'')
            \<and> (\<exists>gh. get_repos fr GitHubSheet sh = Inr gh \<and> git_repos gh [] = Inr res)))"
  using assms(1)
proof (induction wb arbitrary: sp)
  case Nil
  then show ?case using assms(2) by simp
next
  case (Cons sh0 wb)
  from Cons.prems(1) obtain sp1 where 1: "read_sheet fr sh0 sp = Inr sp1"
    and 2: "read_sheets fr wb sp1 = Inr sp'"
    by (auto split: sum.splits)
  from Cons.IH [OF 2] consider (a) "(d, res) \<in> set sp1"
    | (b) "\<exists>sh\<in>set wb. \<exists>k. sheet_table (name sh) = Some (k, d) \<and> get_repos fr k sh = Inr res
             \<and> (k = GitHubSheet \<longrightarrow> (\<exists>git. git_repos res [] = Inr git))"
    | (c) "d = ''git'' \<and> (\<exists>sh\<in>set wb. sheet_table (name sh) = Some (GitHubSheet, ''github'')
            \<and> (\<exists>gh. get_repos fr GitHubSheet sh = Inr gh \<and> git_repos gh [] = Inr res))"
    by blast
  then show ?case
  proof cases
    case a
    from read_sheet_origin [OF 1 a] show ?thesis by auto
  next
    case b
    then show ?thesis by auto
  next
    case c
    then show ?thesis by auto
  qed
qed

lemma row_entry_Text:
  assumes "row_entry fr k sh row = Inr (key, p)" "k \<noteq> Meetup" "k \<noteq> GitHubSheet"
  shows "is_Text key"
proof -
  obtain repo where n: "normalize_repo fr k repo = Inr key"
    using assms(1) by (auto simp: row_entry_def split: sum.splits)
  show ?thesis
  proof (cases k)
    case BugzillaSheet
    obtain url product component where "normalized_bzrepo url product component = Inr key"
      using assms(1) unfolding BugzillaSheet
      by (auto simp: row_entry_def BugzillaSheet_get_repo_def split: sum.splits)
    then show ?thesis by (cases url; cases product; cases component) auto
  next
    case EmailSheet
    then show ?thesis using n by (cases repo) auto
  next
    case DiscourseSheet
    then show ?thesis using n by (auto simp: DiscourseSheet_normalize_repo_def split: sum.splits)
  next
    case StackOverflow
    then show ?thesis using n by (cases repo) auto
  next
    case IRC
    then show ?thesis using n by (auto simp: IRC_normalize_repo_def)
  qed (use assms in simp_all)
qed

lemma sheet_table_Meetup: "sheet_table n = Some (k, d) \<Longrightarrow> (k = Meetup \<longleftrightarrow> d = ''meetup'')"
  by (auto simp: sheet_table_def split: if_splits)

lemma sheet_keys_Text:
  assumes "read_sheets fr wb [] = Inr sp" "(d, res) \<in> set sp" "d \<noteq> ''meetup''"
    "(key, p) \<in> set res"
  shows "is_Text key"
proof -
  from read_sheets_origin [OF assms(1,2)] consider
      (b) sh k where "sh \<in> set wb" "sheet_table (name sh) = Some (k, d)" "get_repos fr k sh = Inr res"
        "k = GitHubSheet \<longrightarrow> (\<exists>git. git_repos res [] = Inr git)"
    | (c) sh gh where "d = ''git''" "get_repos fr GitHubSheet sh = Inr gh" "git_repos gh [] = Inr res"
    by auto
  then show ?thesis
  proof cases
    case b
    have nm: "k \<noteq> Meetup" using sheet_table_Meetup [OF b(2)] assms(3) by simp
    show ?thesis
    proof (cases "k = GitHubSheet")
      case False
      obtain row where "row_entry fr k sh row = Inr (key, p)"
        using get_repos_origin [OF b(3) assms(4)] by blast
      then show ?thesis using nm False by (rule row_entry_Text)
    next
      case True
      then obtain git where "git_repos res [] = Inr git" using b(4) by blast
      then have "list_all (\<lambda>(repo, project). is_Text repo) res"
        using git_repos_fold by blast
      then show ?thesis using assms(4) by (auto simp: list_all_iff)
    qed
  next
    case c
    let ?es = "map (\<lambda>(repo, project). (Text (text_of repo @ ''.git''), project)) gh"
    have "res = fold (\<lambda>(k, v). AList.update k v) ?es []"
      using git_repos_fold [OF c(3)] by simp
    then have "(key, p) \<in> set (fold (\<lambda>(k, v). AList.update k v) ?es [])"
      using assms(4) by simp
    then have "(key, p) \<in> set ?es \<or> (key, p) \<in> set []" by (rule fold_update_mem)
    then show ?thesis by auto
  qed
qed

lemma finalized_origin:
  assumes t: "finalize (aggregate sp []) = Inr t" and p: "(p, s') \<in> set t"
    and d: "(d, Repos l) \<in> set s'" and x: "x \<in> set l"
  shows "\<exists>res. (d, res) \<in> set sp \<and> (x, p) \<in> set res"
proof -
  obtain src where src: "(p, src) \<in> set (aggregate sp [])" and f: "finalize_project p src = Inr s'"
    using finalize_mem [OF t p] by blast
  have wf: "wf_sets (aggregate sp [])" using wf_sets_Nil by (rule wf_sets_aggregate)
  obtain s where s: "sort_datasources src = Inr s"
    and c: "(map_of s ''meta'' = None
               \<and> (\<exists>nm. p = Text nm \<and> s' = AList.update ''meta'' (Meta (py_lower nm)) s))
            \<or> (map_of s ''meta'' \<noteq> None \<and> s' = s)"
    using finalize_project_cases [OF f] by blast
  have m: "(d, Repos l) \<in> set s"
  proof (cases "s' = s")
    case True
    then show ?thesis using d by simp
  next
    case False
    then obtain nm where "s' = AList.update ''meta'' (Meta (py_lower nm)) s" using c by blast
    then have "(d = ''meta'' \<and> Repos l = Meta (py_lower nm)) \<or> (d, Repos l) \<in> set s"
      using d in_update_cases [of d "Repos l" "''meta''" "Meta (py_lower nm)" s] by simp
    then show ?thesis by simp
  qed
  obtain repos l' where r: "(d, repos) \<in> set src" "py_sorted repos = Inr l'" "Repos l = Repos l'"
    using sort_datasources_mem [OF s m] by blast
  have l: "py_sorted repos = Inr l" using r(2,3) by simp
  have ds: "distinct (map fst src)" and dr: "distinct repos"
    using wf src r(1) unfolding wf_sets_iff by blast+
  have dp: "distinct (map fst (aggregate sp []))" using wf unfolding wf_sets_iff by blast
  have "x \<in> set repos" using py_sorted_in_order [OF l dr] x by simp
  moreover have "map_of (aggregate sp []) p = Some src" using dp src by simp
  moreover have "map_of src d = Some repos" using ds r(1) by simp
  ultimately have "x \<in> repos_of (aggregate sp []) p d" by (simp add: repos_of_def)
  then show ?thesis unfolding repos_of_aggregate by (simp add: repos_of_def)
qed

lemma stored_origin:
  assumes run: "main_projects fr wb = Inr tree" and sp: "read_sheets fr wb [] = Inr sp"
    and p: "(p, src) \<in> set tree" and d: "(d, Repos l) \<in> set src" and x: "x \<in> set l"
  shows "(p = Text ''unknown'' \<and> (d, Repos l) \<in> set adhoc_repositories)
       \<or> (\<exists>res. (d, res) \<in> set sp \<and> (x, p) \<in> set res)"
proof -
  from run obtain sp' t where sp': "read_sheets fr wb [] = Inr sp'"
    and t': "finalize (aggregate sp' []) = Inr t" and tree': "tree = adhoc_tree t"
    by (rule main_projects_stages)
  have eq: "sp' = sp" using sp' sp by simp
  note t = t' [unfolded eq] and tree = tree' [unfolded eq]
  have cases: "(p = Text ''unknown'' \<and> map_of tree p = Some src) \<or> (p \<noteq> Text ''unknown'' \<and> (p, src) \<in> set t)"
    using finalized_distinct [OF t] p unfolding tree by (rule add_adhoc_mem)
  then show ?thesis
  proof
    assume "p \<noteq> Text ''unknown'' \<and> (p, src) \<in> set t"
    then have "(p, src) \<in> set t" by simp
    with t have "\<exists>res. (d, res) \<in> set sp \<and> (x, p) \<in> set res" using d x by (rule finalized_origin)
    then show ?thesis by simp
  next
    assume u: "p = Text ''unknown'' \<and> map_of tree p = Some src"
    define u0 where "u0 = (case map_of t (Text ''unknown'') of None \<Rightarrow> [] | Some u \<Rightarrow> u)"
    have mu: "map_of tree (Text ''unknown'') = Some src" using u by blast
    have "src = fold (\<lambda>(k, v). AList.update k v) adhoc_repositories u0"
      using mu unfolding tree map_of_add_adhoc u0_def by simp
    then have "(d, Repos l) \<in> set (fold (\<lambda>(k, v). AList.update k v) adhoc_repositories u0)"
      using d by simp
    then have "(d, Repos l) \<in> set adhoc_repositories \<or> (d, Repos l) \<in> set u0"
      by (rule fold_update_mem)
    then show ?thesis
    proof
      assume "(d, Repos l) \<in> set adhoc_repositories"
      then show ?thesis using u by simp
    next
      assume m: "(d, Repos l) \<in> set u0"
      then obtain u1 where u1: "map_of t (Text ''unknown'') = Some u1" "u0 = u1"
        unfolding u0_def by (cases "map_of t (Text ''unknown'')") simp_all
      have "(Text ''unknown'', u1) \<in> set t" using u1(1) by (rule map_of_SomeD)
      with t have "\<exists>res. (d, res) \<in> set sp \<and> (x, Text ''unknown'') \<in> set res"
        using m [unfolded u1(2)] x by (rule finalized_origin)
      then show ?thesis using u by simp
    qed
  qed
qed

lemma Text_sorted:
  assumes "(\<exists>ss. l = map Text ss \<and> sorted ss) \<or> (\<exists>qs. l = map Number qs \<and> sorted qs)"
    "\<forall>x\<in>set l. is_Text x"
  shows "\<exists>ss. l = map Text ss \<and> sorted ss"
  using assms(1)
proof
  assume "\<exists>qs. l = map Number qs \<and> sorted qs"
  then obtain qs where qs: "l = map Number qs" by blast
  have "qs = []"
  proof (cases qs)
    case (Cons q qs')
    then have "Number q \<in> set l" using qs by simp
    then show ?thesis using assms(2) by auto
  qed simp
  then have "l = map Text [] \<and> sorted ([] :: string list)" using qs by simp
  then show ?thesis by blast
qed simp

section \<open>Sorted lists of repos\<close>

text \<open>
  Claim C7, as the code has it. In the dictionary that \<^verbatim>\<open>main\<close> hands to
  \<^verbatim>\<open>json.dump\<close>, every entry of every project other than \<^verbatim>\<open>meta\<close> is a list of
  repos without repetition and in ascending order. Under every data source but
  \<^verbatim>\<open>meetup\<close> the repos are strings, in the order of strings, code point by code
  point. The class \<^verbatim>\<open>Meetup\<close> keeps the value of the cell, so under \<^verbatim>\<open>meetup\<close>
  the repos are either strings in that order or floats, which \<^verbatim>\<open>sorted\<close> puts in
  numeric order.
\<close>

theorem repo_lists_sorted_without_duplicates:
  assumes "main_projects fr wb = Inr tree" "(p, src) \<in> set tree" "(d, e) \<in> set src"
    "d \<noteq> ''meta''"
  shows "\<exists>l. e = Repos l \<and> distinct l
           \<and> ((\<exists>ss. l = map Text ss \<and> sorted ss)
              \<or> (d = ''meetup'' \<and> (\<exists>qs. l = map Number qs \<and> sorted qs)))"
proof -
  from assms(1) obtain sp t where sp: "read_sheets fr wb [] = Inr sp"
    and t: "finalize (aggregate sp []) = Inr t" and tree: "tree = adhoc_tree t"
    by (rule main_projects_stages)
  have nometa: "''meta'' \<notin> fst ` set sp" using sp by (rule read_sheets_no_meta)
  have fin: "\<exists>l. e = Repos l \<and> in_order l" if "(p', s') \<in> set t" "(d, e) \<in> set s'" for p' s'
    using finalized_entry [OF t that nometa] assms(4) by simp
  have "(p = Text ''unknown'' \<and> map_of tree p = Some src) \<or> (p \<noteq> Text ''unknown'' \<and> (p, src) \<in> set t)"
    using finalized_distinct [OF t] assms(2) unfolding tree by (rule add_adhoc_mem)
  then have "\<exists>l. e = Repos l \<and> in_order l"
  proof
    assume "p \<noteq> Text ''unknown'' \<and> (p, src) \<in> set t"
    then show ?thesis using fin assms(3) by blast
  next
    assume u: "p = Text ''unknown'' \<and> map_of tree p = Some src"
    have "map_of tree (Text ''unknown'') = Some src" using u by blast
    from unknown_sources_cases [OF tree this assms(3)] show ?thesis
    proof (elim disjE exE conjE)
      fix u assume "map_of t (Text ''unknown'') = Some u" "(d, e) \<in> set u"
      then have "(Text ''unknown'', u) \<in> set t" by (simp add: map_of_SomeD)
      then show ?thesis using fin \<open>(d, e) \<in> set u\<close> by blast
    next
      fix x assume "e = Repos [Text x]"
      then show ?thesis using in_order_single by blast
    qed
  qed
  then obtain l where l: "e = Repos l" "distinct l"
    and o: "(\<exists>ss. l = map Text ss \<and> sorted ss) \<or> (\<exists>qs. l = map Number qs \<and> sorted qs)"
    unfolding in_order_def by blast
  show ?thesis
  proof (cases "d = ''meetup''")
    case True
    then show ?thesis using l o by blast
  next
    case False
    have "\<forall>x\<in>set l. is_Text x"
    proof
      fix x assume x: "x \<in> set l"
      have dl: "(d, Repos l) \<in> set src" using assms(3) l(1) by simp
      from stored_origin [OF assms(1) sp assms(2) dl x] show "is_Text x"
      proof
        assume "p = Text ''unknown'' \<and> (d, Repos l) \<in> set adhoc_repositories"
        then obtain y where "Repos l = Repos [Text y]" using adhoc_in_order by blast
        then show ?thesis using x by simp
      next
        assume "\<exists>res. (d, res) \<in> set sp \<and> (x, p) \<in> set res"
        then obtain res where "(d, res) \<in> set sp" "(x, p) \<in> set res" by blast
        with sp show ?thesis using False sheet_keys_Text by blast
      qed
    qed
    with o have "\<exists>ss. l = map Text ss \<and> sorted ss" by (rule Text_sorted)
    then show ?thesis using l by blast
  qed
qed

text \<open>
  Claim C7 on a workbook whose rows are out of order and repeat a repo: the
  strings under \<^verbatim>\<open>git\<close> and the floats under \<^verbatim>\<open>meetup\<close>.
\<close>

theorem repo_lists_sorted_without_duplicates_witness:
  "main_projects (\<lambda>q. [])
      [\<lparr>name = ''Github'', grid = [[Text ''repo'', Text ''project''],
         [Text ''b'', Text ''Mozilla''], [Text ''a'', Text ''Mozilla''], [Text ''b'', Text ''Mozilla'']]\<rparr>,
       \<lparr>name = ''Meetup'', grid = [[Text ''group'', Text ''project''],
         [Number 10, Text ''Mozilla''], [Number 9, Text ''Mozilla''],
         [Number (- 5 / 2), Text ''Mozilla''], [Number 9, Text ''Mozilla'']]\<rparr>]
     = Inr [(Text ''Mozilla'',
              [(''github'', Repos [Text ''a'', Text ''b'']),
               (''git'', Repos [Text ''a.git'', Text ''b.git'']),
               (''meetup'', Repos [Number (- (5 / 2)), Number 9, Number 10]),
               (''meta'', Meta ''mozilla'')]),
            (Text ''unknown'', adhoc_repositories)]
   \<and> distinct [Text ''a.git'', Text ''b.git'']
   \<and> (\<exists>ss. [Text ''a.git'', Text ''b.git''] = map Text ss \<and> sorted ss)
   \<and> distinct [Number (- (5 / 2)), Number 9, Number 10]
   \<and> (\<exists>qs. [Number (- (5 / 2)), Number 9, Number 10] = map Number qs \<and> sorted qs)"
proof -
  let ?wb = "[\<lparr>name = ''Github'', grid = [[Text ''repo'', Text ''project''],
         [Text ''b'', Text ''Mozilla''], [Text ''a'', Text ''Mozilla''], [Text ''b'', Text ''Mozilla'']]\<rparr>,
       \<lparr>name = ''Meetup'', grid = [[Text ''group'', Text ''project''],
         [Number 10, Text ''Mozilla''], [Number 9, Text ''Mozilla''],
         [Number (- 5 / 2), Text ''Mozilla''], [Number 9, Text ''Mozilla'']]\<rparr>]"
  let ?src = "[(''github'', Repos [Text ''a'', Text ''b'']),
               (''git'', Repos [Text ''a.git'', Text ''b.git'']),
               (''meetup'', Repos [Number (- (5 / 2)), Number 9, Number 10]),
               (''meta'', Meta ''mozilla'')]"
  let ?tree = "[(Text ''Mozilla'', ?src), (Text ''unknown'', adhoc_repositories)]"
  have run: "main_projects (\<lambda>q. []) ?wb = Inr ?tree" by code_simp
  have p: "(Text ''Mozilla'', ?src) \<in> set ?tree" by simp
  have g: "(''git'', Repos [Text ''a.git'', Text ''b.git'']) \<in> set ?src" by simp
  have m: "(''meetup'', Repos [Number (- (5 / 2)), Number 9, Number 10]) \<in> set ?src" by simp
  have ng: "''git'' \<noteq> ''meta''" and nm: "''meetup'' \<noteq> ''meta''" by simp_all
  from repo_lists_sorted_without_duplicates [OF run p g ng]
  have 1: "distinct [Text ''a.git'', Text ''b.git'']
     \<and> (\<exists>ss. [Text ''a.git'', Text ''b.git''] = map Text ss \<and> sorted ss)"
    by simp
  have no: "\<not> (\<exists>ss. [Number (- (5 / 2)), Number 9, Number 10] = map Text ss \<and> sorted ss)"
    by auto
  from repo_lists_sorted_without_duplicates [OF run p m nm]
  have 2: "distinct [Number (- (5 / 2)), Number 9, Number 10]
     \<and> (\<exists>qs. [Number (- (5 / 2)), Number 9, Number 10] = map Number qs \<and> sorted qs)"
    using no by simp
  show ?thesis using run 1 2 by (intro conjI) simp_all
qed

text \<open>
  The claim as the specification states it, with the order of strings for every
  list, fails on a Meetup sheet with the numeric cells \<open>10\<close>, \<open>9\<close> and
  \<open>-2.5\<close>: the list under \<^verbatim>\<open>meetup\<close> is in numeric order, it is not a list of
  strings, and the decimal forms that \<^verbatim>\<open>json.dump\<close> writes for it are not in the
  order of strings.
\<close>

theorem meetup_numbers_in_numeric_order:
  "main_projects (\<lambda>q. if q = 10 then ''10.0'' else if q = 9 then ''9.0'' else ''-2.5'')
      [\<lparr>name = ''Meetup'', grid = [[Text ''group'', Text ''project''],
         [Number 10, Text ''Mozilla''], [Number 9, Text ''Mozilla''],
         [Number (- 5 / 2), Text ''Mozilla'']]\<rparr>]
     = Inr [(Text ''Mozilla'',
              [(''meetup'', Repos [Number (- (5 / 2)), Number 9, Number 10]),
               (''meta'', Meta ''mozilla'')]),
            (Text ''unknown'', adhoc_repositories)]
   \<and> \<not> (\<exists>ss. [Number (- (5 / 2)), Number 9, Number 10] = map Text ss \<and> sorted ss)
   \<and> map (py_str (\<lambda>q. if q = 10 then ''10.0'' else if q = 9 then ''9.0'' else ''-2.5''))
        [Number (- (5 / 2)), Number 9, Number 10] = [''-2.5'', ''9.0'', ''10.0'']
   \<and> \<not> sorted [''-2.5'', ''9.0'', ''10.0'']"
proof (intro conjI)
  show "main_projects (\<lambda>q. if q = 10 then ''10.0'' else if q = 9 then ''9.0'' else ''-2.5'')
      [\<lparr>name = ''Meetup'', grid = [[Text ''group'', Text ''project''],
         [Number 10, Text ''Mozilla''], [Number 9, Text ''Mozilla''],
         [Number (- 5 / 2), Text ''Mozilla'']]\<rparr>]
     = Inr [(Text ''Mozilla'',
              [(''meetup'', Repos [Number (- (5 / 2)), Number 9, Number 10]),
               (''meta'', Meta ''mozilla'')]),
            (Text ''unknown'', adhoc_repositories)]"
    by code_simp
  show "\<not> (\<exists>ss. [Number (- (5 / 2)), Number 9, Number 10] = map Text ss \<and> sorted ss)"
    by auto
  show "map (py_str (\<lambda>q. if q = 10 then ''10.0'' else if q = 9 then ''9.0'' else ''-2.5''))
        [Number (- (5 / 2)), Number 9, Number 10] = [''-2.5'', ''9.0'', ''10.0'']"
    by simp
  show "\<not> sorted [''-2.5'', ''9.0'', ''10.0'']"
    by code_simp
qed

section \<open>GitHub and git\<close>

text \<open>
  Claim C4. In a run that reaches \<^verbatim>\<open>json.dump\<close>, let \<open>github\<close> be
  \<^verbatim>\<open>spreadsheet['github']\<close>, the dictionary \<^verbatim>\<open>get_repos\<close> made of the sheet
  \<^verbatim>\<open>Github\<close>. A repo \<open>R\<close> that it maps to the project \<open>P\<close> is a string, the
  list \<^verbatim>\<open>projects[P]['github']\<close> holds \<open>R\<close> and the list
  \<^verbatim>\<open>projects[P]['git']\<close> holds \<open>R\<close> followed by \<^verbatim>\<open>.git\<close>; and
  \<^verbatim>\<open>spreadsheet['git']\<close> is \<open>github\<close> with \<^verbatim>\<open>.git\<close> appended to every key.
\<close>

theorem github_and_git_filed:
  assumes "main_projects fr wb = Inr tree" "read_sheets fr wb [] = Inr sp"
    and "map_of sp ''github'' = Some github" "map_of github R = Some P"
  shows "\<exists>r src lh lg. R = Text r \<and> map_of tree P = Some src
      \<and> map_of src ''github'' = Some (Repos lh) \<and> R \<in> set lh
      \<and> map_of src ''git'' = Some (Repos lg) \<and> Text (r @ ''.git'') \<in> set lg
      \<and> map_of sp ''git''
          = Some (map (\<lambda>(repo, project). (Text (text_of repo @ ''.git''), project)) github)"
proof -
  let ?f = "\<lambda>(repo, project). (Text (text_of repo @ ''.git''), project)"
  have "distinct (map fst github)
      \<and> (\<exists>git. git_repos github [] = Inr git \<and> map_of sp ''git'' = Some git)"
    using assms(2) _ assms(3) by (rule read_sheets_git) simp
  then obtain git where dg: "distinct (map fst github)" and g: "git_repos github [] = Inr git"
    and sg: "map_of sp ''git'' = Some git"
    by blast
  have t: "list_all (\<lambda>(repo, project). is_Text repo) github" and git: "git = map ?f github"
    using git_repos_image [OF g dg] by simp_all
  have RP: "(R, P) \<in> set github" using assms(4) by (rule map_of_SomeD)
  then have "is_Text R" using t by (auto simp: list_all_iff)
  then obtain r where r: "R = Text r" by (cases R) simp_all
  have "?f (R, P) \<in> set git" unfolding git using RP by (simp only: set_map imageI)
  then have m: "(Text (r @ ''.git''), P) \<in> set git" using r by simp
  have "git = fold (\<lambda>(k, v). AList.update k v) (map ?f github) []"
    using git_repos_fold [OF g] by simp
  then have "distinct (map fst git)" by (simp add: distinct_fold_update)
  then have mg: "map_of git (Text (r @ ''.git'')) = Some P" using m by simp
  obtain src lh where h: "map_of tree P = Some src" "map_of src ''github'' = Some (Repos lh)"
    "R \<in> set lh"
    using filed [OF assms(1,2,3,4)] by auto
  obtain src' lg where h': "map_of tree P = Some src'" "map_of src' ''git'' = Some (Repos lg)"
    "Text (r @ ''.git'') \<in> set lg"
    using filed [OF assms(1,2) sg mg] by auto
  have "src' = src" using h(1) h'(1) by simp
  then show ?thesis using r h h' sg git by blast
qed

text \<open>Claim C4 on a workbook with one GitHub row.\<close>

theorem github_and_git_filed_witness:
  "main_projects (\<lambda>q. [])
      [\<lparr>name = ''Github'', grid = [[Text ''repo'', Text ''project''],
         [Text ''https://github.com/mozilla/gecko'', Text ''Mozilla'']]\<rparr>]
     = Inr [(Text ''Mozilla'',
              [(''github'', Repos [Text ''https://github.com/mozilla/gecko'']),
               (''git'', Repos [Text ''https://github.com/mozilla/gecko.git'']),
               (''meta'', Meta ''mozilla'')]),
            (Text ''unknown'', adhoc_repositories)]
   \<and> read_sheets (\<lambda>q. [])
      [\<lparr>name = ''Github'', grid = [[Text ''repo'', Text ''project''],
         [Text ''https://github.com/mozilla/gecko'', Text ''Mozilla'']]\<rparr>] []
     = Inr [(''github'', [(Text ''https://github.com/mozilla/gecko'', Text ''Mozilla'')]),
            (''git'', [(Text ''https://github.com/mozilla/gecko.git'', Text ''Mozilla'')])]
   \<and> (\<exists>r src lh lg. Text ''https://github.com/mozilla/gecko'' = Text r
      \<and> map_of [(Text ''Mozilla'',
              [(''github'', Repos [Text ''https://github.com/mozilla/gecko'']),
               (''git'', Repos [Text ''https://github.com/mozilla/gecko.git'']),
               (''meta'', Meta ''mozilla'')]),
            (Text ''unknown'', adhoc_repositories)] (Text ''Mozilla'') = Some src
      \<and> map_of src ''github'' = Some (Repos lh) \<and> Text ''https://github.com/mozilla/gecko'' \<in> set lh
      \<and> map_of src ''git'' = Some (Repos lg) \<and> Text (r @ ''.git'') \<in> set lg)"
proof -
  let ?wb = "[\<lparr>name = ''Github'', grid = [[Text ''repo'', Text ''project''],
         [Text ''https://github.com/mozilla/gecko'', Text ''Mozilla'']]\<rparr>]"
  let ?tree = "[(Text ''Mozilla'',
              [(''github'', Repos [Text ''https://github.com/mozilla/gecko'']),
               (''git'', Repos [Text ''https://github.com/mozilla/gecko.git'']),
               (''meta'', Meta ''mozilla'')]),
            (Text ''unknown'', adhoc_repositories)]"
  let ?gh = "[(Text ''https://github.com/mozilla/gecko'', Text ''Mozilla'')]"
  let ?sp = "[(''github'', ?gh),
            (''git'', [(Text ''https://github.com/mozilla/gecko.git'', Text ''Mozilla'')])]"
  have run: "main_projects (\<lambda>q. []) ?wb = Inr ?tree" by code_simp
  have sp: "read_sheets (\<lambda>q. []) ?wb [] = Inr ?sp" by code_simp
  have gh: "map_of ?sp ''github'' = Some ?gh" by simp
  have rp: "map_of ?gh (Text ''https://github.com/mozilla/gecko'') = Some (Text ''Mozilla'')" by simp
  from github_and_git_filed [OF run sp gh rp]
  have "\<exists>r src lh lg. Text ''https://github.com/mozilla/gecko'' = Text r
      \<and> map_of ?tree (Text ''Mozilla'') = Some src
      \<and> map_of src ''github'' = Some (Repos lh) \<and> Text ''https://github.com/mozilla/gecko'' \<in> set lh
      \<and> map_of src ''git'' = Some (Repos lg) \<and> Text (r @ ''.git'') \<in> set lg"
    by blast
  then show ?thesis using run sp by blast
qed

section \<open>Bugzilla\<close>

lemma Bugzilla_row_entry:
  "row_entry fr BugzillaSheet sh r = Inr (k, p) \<longleftrightarrow>
     get_repo BugzillaSheet sh r = Inr k
     \<and> (\<exists>c. cell_value sh r 3 = Inr c \<and> p = (if c = Text [] then Text ''Unknown'' else c))"
  by (auto simp: row_entry_def split: sum.splits)

lemma sheet_table_Bugzilla: "sheet_table ''Bugzilla'' = Some (BugzillaSheet, ''bugzilla'')"
  by (simp add: sheet_table_def)

text \<open>
  Claim C5, as the code has it. In a run that reaches \<^verbatim>\<open>json.dump\<close>, a row
  of the sheet \<^verbatim>\<open>Bugzilla\<close> after the header whose cells in the columns 0, 1
  and 2 are the strings \<open>url\<close>, \<open>product\<close> and \<open>component\<close> gives the
  repo \<open>url\<close>, \<^verbatim>\<open>/bugs/buglist.cgi?product=\<close>, \<open>product\<close> with \<^verbatim>\<open>+\<close> for
  every space, \<^verbatim>\<open>&component=\<close>, \<open>component\<close> with \<^verbatim>\<open>+\<close> for every space.
  This repo is in the list \<^verbatim>\<open>bugzilla\<close> of a project: the one in column 3 of
  the last row of the sheet that gives the same repo, \<^verbatim>\<open>Unknown\<close> when that
  cell is empty. The names of the sheets of a workbook are distinct.
\<close>

theorem bugzilla_row_filed:
  assumes "main_projects fr wb = Inr tree" "distinct (map name wb)" "sh \<in> set wb"
    and "name sh = ''Bugzilla''" "0 < row" "row < nrows sh"
    and "cell_value sh row 0 = Inr (Text url)" "cell_value sh row 1 = Inr (Text product)"
    and "cell_value sh row 2 = Inr (Text component)"
  shows "\<exists>key last project src l.
      key = Text (url @ ''/bugs/buglist.cgi?product=''
                  @ map (\<lambda>c. if c = CHR '' '' then CHR ''+'' else c) product
                  @ ''&component=''
                  @ map (\<lambda>c. if c = CHR '' '' then CHR ''+'' else c) component)
      \<and> get_repo BugzillaSheet sh row = Inr key
      \<and> row \<le> last \<and> last < nrows sh \<and> get_repo BugzillaSheet sh last = Inr key
      \<and> (\<forall>r. last < r \<and> r < nrows sh \<longrightarrow> get_repo BugzillaSheet sh r \<noteq> Inr key)
      \<and> cell_value sh last 3 = Inr project
      \<and> map_of tree (if project = Text [] then Text ''Unknown'' else project) = Some src
      \<and> map_of src ''bugzilla'' = Some (Repos l) \<and> key \<in> set l"
proof -
  define key where "key = Text (url @ ''/bugs/buglist.cgi?product=''
                  @ map (\<lambda>c. if c = CHR '' '' then CHR ''+'' else c) product
                  @ ''&component=''
                  @ map (\<lambda>c. if c = CHR '' '' then CHR ''+'' else c) component)"
  from assms(1) obtain sp t where sp: "read_sheets fr wb [] = Inr sp"
    by (rule main_projects_stages)
  obtain res where res: "get_repos fr BugzillaSheet sh = Inr res"
    and stored: "map_of sp ''bugzilla'' = Some res"
    using read_sheets_stored [OF sp assms(3,2), of BugzillaSheet "''bugzilla''"]
      sheet_table_Bugzilla assms(4) by auto
  have k: "get_repo BugzillaSheet sh row = Inr key"
    using assms(7,8,9) by (simp add: BugzillaSheet_get_repo_def key_def py_replace_space)
  define S where "S = {r. row \<le> r \<and> r < nrows sh \<and> get_repo BugzillaSheet sh r = Inr key}"
  have fin: "finite S" unfolding S_def by simp
  have ne: "row \<in> S" using assms(6) k by (simp add: S_def)
  define last where "last = Max S"
  have lastS: "last \<in> S" unfolding last_def using fin ne by (intro Max_in) auto
  then have l1: "row \<le> last" "last < nrows sh" "get_repo BugzillaSheet sh last = Inr key"
    by (simp_all add: S_def)
  have l2: "get_repo BugzillaSheet sh r \<noteq> Inr key" if "last < r" "r < nrows sh" for r
  proof
    assume "get_repo BugzillaSheet sh r = Inr key"
    then have "r \<in> S" using that l1(1) by (simp add: S_def)
    then have "r \<le> last" unfolding last_def using fin by (rule Max_ge [rotated])
    then show False using that(1) by simp
  qed
  have "0 < last" using assms(5) l1(1) by simp
  then obtain key' p where e: "row_entry fr BugzillaSheet sh last = Inr (key', p)"
    using get_repos_row_ok [OF res _ l1(2)] by blast
  then have key': "key' = key" using l1(3) by (simp add: Bugzilla_row_entry)
  obtain project where pr: "cell_value sh last 3 = Inr project"
    "p = (if project = Text [] then Text ''Unknown'' else project)"
    using e by (auto simp: Bugzilla_row_entry)
  have "\<forall>p'. row_entry fr BugzillaSheet sh j' \<noteq> Inr (key, p')" if "last < j'" "j' < nrows sh" for j'
    using l2 [OF that] by (simp add: Bugzilla_row_entry)
  then have rp: "map_of res key = Some p"
    using get_repos_last_entry [OF res \<open>0 < last\<close> l1(2) e [unfolded key']] by blast
  have nd: "p \<noteq> Text ''unknown'' \<or> ''bugzilla'' \<noteq> ''discourse''" by simp
  obtain src l where f: "map_of tree p = Some src" "map_of src ''bugzilla'' = Some (Repos l)"
    "key \<in> set l"
    using filed [OF assms(1) sp stored rp nd] by blast
  have l3: "\<forall>r. last < r \<and> r < nrows sh \<longrightarrow> get_repo BugzillaSheet sh r \<noteq> Inr key"
    using l2 by blast
  have f1: "map_of tree (if project = Text [] then Text ''Unknown'' else project) = Some src"
    using f(1) unfolding pr(2) .
  show ?thesis
    using key_def k l1 l3 pr(1) f1 f(2,3) by blast
qed



text \<open>Claim C5 on the row of the specification.\<close>

theorem bugzilla_row_filed_witness:
  "main_projects (\<lambda>q. [])
      [\<lparr>name = ''Bugzilla'', grid = [[Text ''url'', Text ''product'', Text ''component'', Text ''project''],
         [Text ''http://bugzilla.example'', Text ''Core'', Text ''XML Parser'', Text ''Mozilla'']]\<rparr>]
     = Inr [(Text ''Mozilla'',
              [(''bugzilla'', Repos [Text ''http://bugzilla.example/bugs/buglist.cgi?product=Core&component=XML+Parser'']),
               (''meta'', Meta ''mozilla'')]),
            (Text ''unknown'', adhoc_repositories)]
   \<and> (\<exists>last project src l. 1 \<le> last
        \<and> cell_value \<lparr>name = ''Bugzilla'', grid = [[Text ''url'', Text ''product'', Text ''component'', Text ''project''],
             [Text ''http://bugzilla.example'', Text ''Core'', Text ''XML Parser'', Text ''Mozilla'']]\<rparr> last 3
            = Inr project
        \<and> map_of [(Text ''Mozilla'',
              [(''bugzilla'', Repos [Text ''http://bugzilla.example/bugs/buglist.cgi?product=Core&component=XML+Parser'']),
               (''meta'', Meta ''mozilla'')]),
            (Text ''unknown'', adhoc_repositories)]
            (if project = Text [] then Text ''Unknown'' else project) = Some src
        \<and> map_of src ''bugzilla'' = Some (Repos l)
        \<and> Text ''http://bugzilla.example/bugs/buglist.cgi?product=Core&component=XML+Parser'' \<in> set l)"
proof -
  let ?sh = "\<lparr>name = ''Bugzilla'', grid = [[Text ''url'', Text ''product'', Text ''component'', Text ''project''],
         [Text ''http://bugzilla.example'', Text ''Core'', Text ''XML Parser'', Text ''Mozilla'']]\<rparr>"
  let ?tree = "[(Text ''Mozilla'',
              [(''bugzilla'', Repos [Text ''http://bugzilla.example/bugs/buglist.cgi?product=Core&component=XML+Parser'']),
               (''meta'', Meta ''mozilla'')]),
            (Text ''unknown'', adhoc_repositories)]"
  have run: "main_projects (\<lambda>q. []) [?sh] = Inr ?tree" by code_simp
  have d: "distinct (map name [?sh])" by simp
  have m: "?sh \<in> set [?sh]" by simp
  have n: "name ?sh = ''Bugzilla''" by simp
  have r: "0 < (1::nat)" "1 < nrows ?sh" by (simp_all add: nrows_def)
  have c0: "cell_value ?sh 1 0 = Inr (Text ''http://bugzilla.example'')"
    and c1: "cell_value ?sh 1 1 = Inr (Text ''Core'')"
    and c2: "cell_value ?sh 1 2 = Inr (Text ''XML Parser'')"
    by (simp_all add: cell_value_def)
  from bugzilla_row_filed [OF run d m n r c0 c1 c2]
  obtain key last project src l where k: "key = Text (''http://bugzilla.example'' @ ''/bugs/buglist.cgi?product=''
                  @ map (\<lambda>c. if c = CHR '' '' then CHR ''+'' else c) ''Core''
                  @ ''&component=''
                  @ map (\<lambda>c. if c = CHR '' '' then CHR ''+'' else c) ''XML Parser'')"
    and f: "1 \<le> last" "cell_value ?sh last 3 = Inr project"
    "map_of ?tree (if project = Text [] then Text ''Unknown'' else project) = Some src"
    "map_of src ''bugzilla'' = Some (Repos l)" and kl: "key \<in> set l"
    by blast
  have "key = Text ''http://bugzilla.example/bugs/buglist.cgi?product=Core&component=XML+Parser''"
    using k by simp
  then have "Text ''http://bugzilla.example/bugs/buglist.cgi?product=Core&component=XML+Parser'' \<in> set l"
    using kl by simp
  with f have "\<exists>last project src l. 1 \<le> last
        \<and> cell_value ?sh last 3 = Inr project
        \<and> map_of ?tree (if project = Text [] then Text ''Unknown'' else project) = Some src
        \<and> map_of src ''bugzilla'' = Some (Repos l)
        \<and> Text ''http://bugzilla.example/bugs/buglist.cgi?product=Core&component=XML+Parser'' \<in> set l"
    by (intro exI conjI)
  with run show ?thesis by (rule conjI)
qed

text \<open>
  The claim as the specification states it files the repo of every row under
  the project of that row. Two rows with the same url, product and component
  and the projects \<^verbatim>\<open>A\<close> and \<^verbatim>\<open>B\<close>: the output has no project \<^verbatim>\<open>A\<close>.
\<close>

theorem bugzilla_repeated_key:
  "main_projects (\<lambda>q. [])
      [\<lparr>name = ''Bugzilla'', grid = [[Text ''url'', Text ''product'', Text ''component'', Text ''project''],
         [Text ''http://b'', Text ''Core'', Text ''DOM'', Text ''A''],
         [Text ''http://b'', Text ''Core'', Text ''DOM'', Text ''B'']]\<rparr>]
     = Inr [(Text ''B'',
              [(''bugzilla'', Repos [Text ''http://b/bugs/buglist.cgi?product=Core&component=DOM'']),
               (''meta'', Meta ''b'')]),
            (Text ''unknown'', adhoc_repositories)]
   \<and> cell_value \<lparr>name = ''Bugzilla'', grid = [[Text ''url'', Text ''product'', Text ''component'', Text ''project''],
         [Text ''http://b'', Text ''Core'', Text ''DOM'', Text ''A''],
         [Text ''http://b'', Text ''Core'', Text ''DOM'', Text ''B'']]\<rparr> 1 3 = Inr (Text ''A'')
   \<and> map_of [(Text ''B'',
              [(''bugzilla'', Repos [Text ''http://b/bugs/buglist.cgi?product=Core&component=DOM'']),
               (''meta'', Meta ''b'')]),
            (Text ''unknown'', adhoc_repositories)] (Text ''A'') = None"
  by code_simp

end
